theory Spec2Isabelle
  imports Complex_Main
begin

section \<open>The GENEActiv reader and the rolling median of scikit-digital-health\<close>

text \<open>
  A shallow embedding of \<^verbatim>\<open>src/skimu/read/_extensions/read_geneactiv.c\<close> and of
  \<^verbatim>\<open>src/skimu/utility/_extensions/rolling_median.c\<close>.

  Conventions of the embedding:
  \<^item> a C \<^verbatim>\<open>double\<close> is a \<open>real\<close>: rounding, infinities and NaN are not represented, so
    a quotient whose divisor is zero has no meaning here and the theorems that depend on
    the value of a quotient assume the divisor is not zero;
  \<^item> a C \<^verbatim>\<open>long\<close> is an \<open>int\<close> with the range of a 64-bit long checked where the code
    multiplies, and the narrowing to \<^verbatim>\<open>int\<close> checked where the code narrows;
  \<^item> a \<^verbatim>\<open>char\<close> array is a list of characters, the C string it holds is the prefix
    before the first NUL, and a stream is the list of characters not yet read;
  \<^item> the caller's sample arrays are maps from the element index to the value: the
    functions receive bare pointers, so the capacity is the caller's obligation;
  \<^item> a local array holds on entry what the stack holds there: the first contents of
    \<^verbatim>\<open>buff\<close> and \<^verbatim>\<open>time\<close> and the byte \<^verbatim>\<open>p[3]\<close>, which no statement writes, are
    parameters of the functions;
  \<^item> undefined behaviour of the C code is a value, \<open>Inl\<close> of a \<open>c_fault\<close>.
\<close>

subsection \<open>Characters, C strings and streams\<close>

definition NUL :: char where
  "NUL = CHR 0x00"

definition NL :: char where
  "NL = CHR 0x0A"

type_synonym cbuf = "char list"

type_synonym FILE = "char list"

text \<open>The C string stored at the start of an array, and \<^verbatim>\<open>strlen\<close>.\<close>

definition cstr :: "cbuf \<Rightarrow> string" where
  "cstr b = takeWhile (\<lambda>c. c \<noteq> NUL) b"

definition strlen :: "cbuf \<Rightarrow> nat" where
  "strlen b = length (cstr b)"

text \<open>Writing a string and its terminator over the start of an array; the bytes behind
  the terminator keep what they held.\<close>

definition store :: "cbuf \<Rightarrow> string \<Rightarrow> cbuf" where
  "store b l = l @ NUL # drop (Suc (length l)) b"

text \<open>\<^verbatim>\<open>fgets(buf, n, fp)\<close> reads at most \<open>n - 1\<close> characters and stops behind a
  newline; at the end of the stream it returns NULL and leaves the array alone.\<close>

fun fgets_chars :: "nat \<Rightarrow> FILE \<Rightarrow> string \<times> FILE" where
  "fgets_chars k [] = ([], [])"
| "fgets_chars k (c # s) =
     (if k = 0 then ([], c # s)
      else if c = NL then ([c], s)
      else (case fgets_chars (k - 1) s of (l, r) \<Rightarrow> (c # l, r)))"

definition fgets :: "nat \<Rightarrow> FILE \<Rightarrow> (string \<times> FILE) option" where
  "fgets n fp = (if fp = [] then None else Some (fgets_chars (n - 1) fp))"

subsection \<open>\<^verbatim>\<open>strtol\<close> and \<^verbatim>\<open>strtod\<close>\<close>

definition isspace :: "char \<Rightarrow> bool" where
  "isspace c = (c \<in> {CHR '' '', CHR 0x09, CHR 0x0A, CHR 0x0B, CHR 0x0C, CHR 0x0D})"

definition digit_of :: "char \<Rightarrow> nat option" where
  "digit_of c =
     (let n = (of_char c :: nat) in
      if 48 \<le> n \<and> n \<le> 57 then Some (n - 48)
      else if 97 \<le> n \<and> n \<le> 122 then Some (n - 87)
      else if 65 \<le> n \<and> n \<le> 90 then Some (n - 55)
      else None)"

definition LONG_MAX :: int where
  "LONG_MAX = 2 ^ 63 - 1"

definition LONG_MIN :: int where
  "LONG_MIN = - (2 ^ 63)"

definition INT_MAX :: int where
  "INT_MAX = 2 ^ 31 - 1"

definition INT_MIN :: int where
  "INT_MIN = - (2 ^ 31)"

fun strtol_digits :: "nat \<Rightarrow> int \<Rightarrow> string \<Rightarrow> int" where
  "strtol_digits b a [] = a"
| "strtol_digits b a (c # s) =
     (case digit_of c of
        None \<Rightarrow> a
      | Some d \<Rightarrow> if d < b then strtol_digits b (a * int b + int d) s else a)"

definition skip_sign :: "string \<Rightarrow> bool \<times> string" where
  "skip_sign s =
     (case s of
        [] \<Rightarrow> (False, [])
      | c # r \<Rightarrow> if c = CHR ''-'' then (True, r) else if c = CHR ''+'' then (False, r) else (False, s))"

definition skip_0x :: "string \<Rightarrow> string" where
  "skip_0x s =
     (case s of
        c # d # r \<Rightarrow> if c = CHR ''0'' \<and> (d = CHR ''x'' \<or> d = CHR ''X'') then r else s
      | _ \<Rightarrow> s)"

text \<open>\<^verbatim>\<open>strtol(s, NULL, base)\<close> for base 10 and 16: white space, a sign, for base 16 an
  optional \<^verbatim>\<open>0x\<close>, then the digits; no digit gives 0; a value outside \<^verbatim>\<open>long\<close> is
  clamped.\<close>

definition strtol :: "string \<Rightarrow> nat \<Rightarrow> int" where
  "strtol s b =
     (case skip_sign (dropWhile isspace s) of
        (neg, r) \<Rightarrow>
          let v = strtol_digits b 0 (if b = 16 then skip_0x r else r)
          in if neg then max LONG_MIN (- v) else min LONG_MAX v)"

text \<open>\<^verbatim>\<open>strtol\<close> reads its argument up to the first character that stops it; white space
  in front, a sign, for base 16 the prefix \<^verbatim>\<open>0x\<close> and the digits of the base do not.
  \<open>strtol_stop s b\<close> is the text of \<open>s\<close> from the character that stops \<^verbatim>\<open>strtol\<close>; it is
  empty when no character of \<open>s\<close> does, and \<^verbatim>\<open>strtol\<close> then reads the byte behind \<open>s\<close>.\<close>

definition digit_in :: "nat \<Rightarrow> char \<Rightarrow> bool" where
  "digit_in b c = (case digit_of c of None \<Rightarrow> False | Some d \<Rightarrow> d < b)"

definition strtol_stop :: "string \<Rightarrow> nat \<Rightarrow> string" where
  "strtol_stop s b =
     (case skip_sign (dropWhile isspace s) of
        (neg, r) \<Rightarrow> dropWhile (digit_in b) (if b = 16 then skip_0x r else r))"

definition isdigit :: "char \<Rightarrow> bool" where
  "isdigit c = (case digit_of c of None \<Rightarrow> False | Some d \<Rightarrow> d < 10)"

definition exponent_of :: "string \<Rightarrow> int" where
  "exponent_of s =
     (case s of
        [] \<Rightarrow> 0
      | c # r \<Rightarrow>
          if c = CHR ''e'' \<or> c = CHR ''E'' then
            (case skip_sign r of
               (neg, ds) \<Rightarrow> let e = strtol_digits 10 0 (takeWhile isdigit ds) in if neg then - e else e)
          else 0)"

text \<open>\<^verbatim>\<open>strtod(s, NULL)\<close> on decimal text: white space, a sign, digits with an optional
  point, an optional exponent. Hexadecimal floats and the words \<^verbatim>\<open>inf\<close> and \<^verbatim>\<open>nan\<close> are
  not represented (they read as 0 here).\<close>

definition strtod :: "string \<Rightarrow> real" where
  "strtod s =
     (case skip_sign (dropWhile isspace s) of
        (neg, r) \<Rightarrow>
          let ip = takeWhile isdigit r;
              r1 = dropWhile isdigit r;
              fp = (case r1 of [] \<Rightarrow> [] | c # r2 \<Rightarrow> if c = CHR ''.'' then takeWhile isdigit r2 else []);
              r3 = (case r1 of [] \<Rightarrow> [] | c # r2 \<Rightarrow> if c = CHR ''.'' then dropWhile isdigit r2 else r1);
              m = real_of_int (strtol_digits 10 0 (ip @ fp)) / 10 ^ length fp;
              e = (if ip = [] \<and> fp = [] then 0 else exponent_of r3);
              v = (if 0 \<le> e then m * 10 ^ nat e else m / 10 ^ nat (- e))
          in if neg then - v else v)"

subsection \<open>\<^verbatim>\<open>timegm\<close>\<close>

record tm =
  tm_year :: int
  tm_mon :: int
  tm_mday :: int
  tm_hour :: int
  tm_min :: int
  tm_sec :: int

text \<open>Days from 1970-01-01 to the given day of the proleptic Gregorian calendar
  (month 1 to 12).\<close>

definition days_from_civil :: "int \<Rightarrow> int \<Rightarrow> int \<Rightarrow> int" where
  "days_from_civil y m d =
     (let y1 = (if m \<le> 2 then y - 1 else y);
          era = y1 div 400;
          yoe = y1 - era * 400;
          mp = (m + 9) mod 12;
          doy = (153 * mp + 2) div 5 + d - 1;
          doe = yoe * 365 + yoe div 4 - yoe div 100 + doy
      in era * 146097 + doe - 719468)"

text \<open>\<^verbatim>\<open>timegm\<close>: the broken-down time read as UTC, fields out of their range carried
  over, no time zone and no daylight saving.\<close>

definition timegm :: "tm \<Rightarrow> int" where
  "timegm t =
     (days_from_civil (tm_year t + 1900 + tm_mon t div 12) (tm_mon t mod 12 + 1) 1 + (tm_mday t - 1)) * 86400
       + tm_hour t * 3600 + tm_min t * 60 + tm_sec t"

subsection \<open>The declarations of \<^verbatim>\<open>read_binary_imu.h\<close>\<close>

text \<open>The header is not among the sources. Its structures are read off the fields the
  two functions use; its return codes are the names the functions return.\<close>

datatype c_fault =
  NullPointer | SignedOverflow | IntNarrowing | DivisionByZero | AllocationFailure | OutOfBounds

datatype GN_Read_Err =
    GN_READ_E_NONE
  | GN_READ_E_BLOCK_TIMESTAMP
  | GN_READ_E_BLOCK_FS
  | GN_READ_E_BLOCK_FS_WARN
  | GN_READ_E_BLOCK_DATA
  | GN_READ_E_BLOCK_DATA_3600

record GN_Info_t =
  fs :: real
  gain :: "nat \<Rightarrow> real"
  offset :: "nat \<Rightarrow> real"
  volts :: real
  lux :: real
  npages :: int
  max_n :: int
  fs_err :: int

record GN_Data_t =
  ts :: "int \<Rightarrow> real"
  acc :: "int \<Rightarrow> real"
  light :: "int \<Rightarrow> real"
  temp :: "int \<Rightarrow> real"
  day_starts :: "int \<Rightarrow> int"
  day_stops :: "int \<Rightarrow> int"

record Window_t =
  w_n :: int
  bases :: "int \<Rightarrow> real"
  periods :: "int \<Rightarrow> real"
  i_start :: "int \<Rightarrow> int"
  i_stop :: "int \<Rightarrow> int"

record Time_t =
  t_hour :: int
  t_min :: int
  t_sec :: int
  t_msec :: int

text \<open>Modelled from the spec: the macro \<^verbatim>\<open>GN_SAMPLES\<close> of \<^verbatim>\<open>read_binary_imu.h\<close>, the
  number of samples of a block: 300 groups of twelve characters, one per sample.\<close>

definition GN_SAMPLES :: int where
  "GN_SAMPLES = 300"

text \<open>Modelled from the spec: the macro \<^verbatim>\<open>GN_READLINE\<close> of \<^verbatim>\<open>read_binary_imu.h\<close>. It names
  neither array nor stream at its uses, stands where a line is skipped or read into
  \<^verbatim>\<open>buff\<close>, and its result is never tested: \<^verbatim>\<open>fgets(buff, 255, fp)\<close>, as in
  \<^verbatim>\<open>parseline\<close>.\<close>

definition GN_READLINE :: "cbuf \<times> FILE \<Rightarrow> cbuf \<times> FILE" where
  "GN_READLINE = (\<lambda>(buff, fp).
     case fgets 255 fp of None \<Rightarrow> (buff, fp) | Some (l, fp1) \<Rightarrow> (store buff l, fp1))"

text \<open>The other macros of the header are parameters of the model: the seven readers of
  the fields of a clock stamp and the capacity \<^verbatim>\<open>MAX_DAYS\<close>.\<close>

record imu_h =
  GN_DATE_YEAR :: "cbuf \<Rightarrow> int"
  GN_DATE_MONTH :: "cbuf \<Rightarrow> int"
  GN_DATE_DAY :: "cbuf \<Rightarrow> int"
  GN_DATE_HOUR :: "cbuf \<Rightarrow> int"
  GN_DATE_MIN :: "cbuf \<Rightarrow> int"
  GN_DATE_SEC :: "cbuf \<Rightarrow> int"
  GN_DATE_MSEC :: "cbuf \<Rightarrow> int"
  MAX_DAYS :: int

text \<open>\<^verbatim>\<open>get_day_indexing\<close> is an external routine and a parameter of the model. In the
  order of the call it receives the sampling rate, the time of day, \<^verbatim>\<open>MAX_DAYS\<close>, the
  window count, bases and periods, \<^verbatim>\<open>max_n\<close>, \<^verbatim>\<open>npages\<close>, the samples per block and the
  four index arrays (day starts, window starts, day stops, window stops), which it
  returns updated. It is handed no sample array; the scalars, passed by address, are
  taken to be inputs only.\<close>

type_synonym day_index = "(int \<Rightarrow> int) \<times> (int \<Rightarrow> int) \<times> (int \<Rightarrow> int) \<times> (int \<Rightarrow> int)"

type_synonym day_indexing =
  "real \<Rightarrow> Time_t \<Rightarrow> int \<Rightarrow> int \<Rightarrow> (int \<Rightarrow> real) \<Rightarrow> (int \<Rightarrow> real) \<Rightarrow> int \<Rightarrow> int \<Rightarrow> int
     \<Rightarrow> day_index \<Rightarrow> day_index"

subsection \<open>\<^verbatim>\<open>parseline\<close> and \<^verbatim>\<open>geneactiv_read_header\<close>\<close>

text \<open>Lines 3-8. \<^verbatim>\<open>fgets\<close> reads a line into \<^verbatim>\<open>buff\<close> (its result is not tested), then
  \<^verbatim>\<open>strtok(buff, ":")\<close> and \<^verbatim>\<open>strtok(NULL, ":")\<close> cut the key and the value out of it:
  \<^verbatim>\<open>strtok\<close> skips leading colons, returns NULL (\<open>None\<close>) when nothing is left, and writes
  NUL over the colon that ends a token. The result is the two tokens, the array and the
  stream.\<close>

definition parseline :: "cbuf \<times> FILE \<Rightarrow> nat \<Rightarrow> (string option \<times> string option) \<times> cbuf \<times> FILE" where
  "parseline st buff_len =
     (case st of
        (buff, fp) \<Rightarrow>
          (case (case fgets buff_len fp of None \<Rightarrow> (buff, fp) | Some (l, fp1) \<Rightarrow> (store buff l, fp1)) of
             (buff1, fp1) \<Rightarrow>
               let s = cstr buff1;
                   a = length (takeWhile (\<lambda>c. c = CHR '':'') s);
                   p = drop a s
               in if p = [] then ((None, None), buff1, fp1)
                  else
                    let k = takeWhile (\<lambda>c. c \<noteq> CHR '':'') p;
                        e = a + length k
                    in if e = length s then ((Some k, None), buff1, fp1)
                       else
                         let buff2 = buff1[e := NUL];
                             q = drop (e + 1) s;
                             b = length (takeWhile (\<lambda>c. c = CHR '':'') q);
                             r = drop b q
                         in if r = [] then ((Some k, None), buff2, fp1)
                            else
                              let v = takeWhile (\<lambda>c. c \<noteq> CHR '':'') r;
                                  e2 = e + 1 + b + length v
                              in ((Some k, Some v),
                                  (if e2 = length s then buff2 else buff2[e2 := NUL]), fp1)))"

text \<open>The loops of \<^verbatim>\<open>geneactiv_read_header\<close> that skip lines, as
  \<^verbatim>\<open>for (int i = 1; i < 20; ++i) GN_READLINE;\<close> with the first value of \<open>i\<close> and its bound.\<close>

function read_lines :: "nat \<Rightarrow> nat \<Rightarrow> cbuf \<times> FILE \<Rightarrow> cbuf \<times> FILE" where
  "read_lines i n st = (if i < n then read_lines (i + 1) n (GN_READLINE st) else st)"
  by pat_completeness auto
termination
  by (relation "measure (\<lambda>(i, n, st). n - i)") auto

declare read_lines.simps [simp del]

text \<open>Lines 28-34: gain and offset of the three axes; \<^verbatim>\<open>strtol(v, NULL, 10)\<close> on a NULL
  value is undefined.\<close>

function gain_offset_loop ::
  "nat \<Rightarrow> nat \<Rightarrow> cbuf \<times> FILE \<Rightarrow> GN_Info_t \<Rightarrow> c_fault + ((cbuf \<times> FILE) \<times> GN_Info_t)" where
  "gain_offset_loop i j st info =
     (if i < 54 then
        (case parseline st 255 of
           ((k, v), st1) \<Rightarrow>
             (case v of
                None \<Rightarrow> Inl NullPointer
              | Some v1 \<Rightarrow>
                  let info1 = info\<lparr>gain := (gain info)(j := real_of_int (strtol v1 10))\<rparr>
                  in case parseline st1 255 of
                       ((k2, v2), st2) \<Rightarrow>
                         (case v2 of
                            None \<Rightarrow> Inl NullPointer
                          | Some v3 \<Rightarrow>
                              gain_offset_loop (i + 2) (j + 1) st2
                                (info1\<lparr>offset := (offset info1)(j := real_of_int (strtol v3 10))\<rparr>))))
      else Inr (st, info))"
  by pat_completeness auto
termination
  by (relation "measure (\<lambda>(i, j, st, info). 54 - i)") auto

declare gain_offset_loop.simps [simp del]

text \<open>Lines 10-51. \<open>buff0\<close> is what the local array \<^verbatim>\<open>buff\<close> holds on entry. The only
  return statement returns \<^verbatim>\<open>GN_READ_E_NONE\<close>.\<close>

definition geneactiv_read_header ::
  "cbuf \<Rightarrow> FILE \<Rightarrow> GN_Info_t \<Rightarrow> c_fault + (GN_Read_Err \<times> FILE \<times> GN_Info_t)" where
  "geneactiv_read_header buff0 fp info =
     (case parseline (read_lines 1 20 (buff0, fp)) 255 of
        ((k, v), st1) \<Rightarrow>
          (case v of
             None \<Rightarrow> Inl NullPointer
           | Some v1 \<Rightarrow>
               let info1 = info\<lparr>fs := real_of_int (strtol v1 10)\<rparr>
               in case gain_offset_loop 48 0 (read_lines 21 48 st1) info1 of
                    Inl e \<Rightarrow> Inl e
                  | Inr (st2, info2) \<Rightarrow>
                      (case GN_READLINE st2 of
                         (buff3, fp3) \<Rightarrow>
                           let info3 = info2\<lparr>volts := real_of_int (strtol (cstr (drop 6 buff3)) 10)\<rparr>
                           in case GN_READLINE (buff3, fp3) of
                                (buff4, fp4) \<Rightarrow>
                                  let info4 = info3\<lparr>lux := real_of_int (strtol (cstr (drop 4 buff4)) 10)\<rparr>
                                  in case read_lines 56 59 (buff4, fp4) of
                                       (buff5, fp5) \<Rightarrow>
                                         let info5 = info4\<lparr>npages := strtol (cstr (drop 16 buff5)) 10\<rparr>
                                         in case GN_READLINE (buff5, fp5) of
                                              (buff6, fp6) \<Rightarrow> Inr (GN_READ_E_NONE, fp6, info5))))"

subsection \<open>The loops of \<^verbatim>\<open>geneactiv_read_block\<close> and \<^verbatim>\<open>get_timestamps\<close>\<close>

text \<open>Lines 117-118: \<^verbatim>\<open>for (int i = Nps; i < (Nps + GN_SAMPLES); ++i) data->temp[i] = temp;\<close>
  with \<open>hi = Nps + GN_SAMPLES\<close>. The counter is an \<^verbatim>\<open>int\<close>: incrementing it at
  \<^verbatim>\<open>INT_MAX\<close> is undefined.\<close>

function temp_loop :: "int \<Rightarrow> int \<Rightarrow> real \<Rightarrow> (int \<Rightarrow> real) \<Rightarrow> c_fault + (int \<Rightarrow> real)" where
  "temp_loop i hi v a =
     (if i < hi then
        (if i = INT_MAX then Inl SignedOverflow else temp_loop (i + 1) hi v (a(i := v)))
      else Inr a)"
  by pat_completeness auto
termination
  by (relation "measure (\<lambda>(i, hi, v, a). nat (hi - i))") auto

declare temp_loop.simps [simp del]

text \<open>Lines 146-153: the three acceleration fields of the group at character \<open>i\<close>.
  \<^verbatim>\<open>memcpy(p, &data_str[i + k * 3], 3)\<close> writes the first three bytes of \<^verbatim>\<open>char p[4]\<close>; no
  statement writes \<^verbatim>\<open>p[3]\<close>, which holds the byte \<open>p3\<close> throughout. \<^verbatim>\<open>strtol(p, NULL, 16)\<close>
  reads \<^verbatim>\<open>p\<close> up to the byte that stops it; when none of the four bytes does, it reads
  behind the array, which is undefined.\<close>

function acc_loop ::
  "cbuf \<Rightarrow> char \<Rightarrow> GN_Info_t \<Rightarrow> int \<Rightarrow> nat \<Rightarrow> nat \<Rightarrow> nat \<Rightarrow> (int \<Rightarrow> real)
     \<Rightarrow> c_fault + nat \<times> (int \<Rightarrow> real)" where
  "acc_loop data_str p3 info Nps i k j a =
     (if k < 3 then
        let p = take 3 (drop (i + k * 3) data_str) @ [p3]
        in if strtol_stop p 16 = [] then Inl OutOfBounds
           else
             let t = strtol (cstr p) 16;
                 t' = (if t > 2047 then - 4096 + t else t)
             in acc_loop data_str p3 info Nps i (k + 1) (j + 1)
                  (a(Nps * 3 + int j := (real_of_int t' * 100 - offset info k) / gain info k))
      else Inr (j, a))"
  by pat_completeness auto
termination
  by (relation "measure (\<lambda>(data_str, p3, info, Nps, i, k, j, a). 3 - k)") auto

declare acc_loop.simps [simp del]

text \<open>Lines 143-158: the groups of twelve characters of the data line; the light field is
  read through the same array \<^verbatim>\<open>p\<close>.\<close>

function block_loop ::
  "cbuf \<Rightarrow> char \<Rightarrow> GN_Info_t \<Rightarrow> int \<Rightarrow> nat \<Rightarrow> nat \<Rightarrow> nat \<Rightarrow> GN_Data_t \<Rightarrow> c_fault + GN_Data_t" where
  "block_loop data_str p3 info Nps i j jj data =
     (if i < 3600 then
        (case acc_loop data_str p3 info Nps i 0 j (acc data) of
           Inl e \<Rightarrow> Inl e
         | Inr (j', a) \<Rightarrow>
             let p = take 3 (drop (i + 9) data_str) @ [p3]
             in if strtol_stop p 16 = [] then Inl OutOfBounds
                else
                  let t = strtol (cstr p) 16
                  in block_loop data_str p3 info Nps (i + 12) j' (jj + 1)
                       (data\<lparr>acc := a,
                             light := (light data)
                               (Nps + int jj := real_of_int (drop_bit 2 t) * (lux info / volts info))\<rparr>))
      else Inr data)"
  by pat_completeness auto
termination
  by (relation "measure (\<lambda>(data_str, p3, info, Nps, i, j, jj, data). 3600 - i)") auto

declare block_loop.simps [simp del]

text \<open>Lines 79-80: \<^verbatim>\<open>for (int j = 0; j < GN_SAMPLES; ++j) data->ts[*Nps + j] = t0 + (double)j / info->fs;\<close>\<close>

function ts_loop :: "int \<Rightarrow> real \<Rightarrow> real \<Rightarrow> int \<Rightarrow> (int \<Rightarrow> real) \<Rightarrow> int \<Rightarrow> real" where
  "ts_loop Nps t0 f j a =
     (if j < GN_SAMPLES then ts_loop Nps t0 f (j + 1) (a(Nps + j := t0 + real_of_int j / f)) else a)"
  by pat_completeness auto
termination
  by (relation "measure (\<lambda>(Nps, t0, f, j, a). nat (GN_SAMPLES - j))") auto

declare ts_loop.simps [simp del]

subsection \<open>\<^verbatim>\<open>get_timestamps\<close>\<close>

definition get_timestamps ::
  "imu_h \<Rightarrow> day_indexing \<Rightarrow> int \<Rightarrow> cbuf \<Rightarrow> GN_Info_t \<Rightarrow> GN_Data_t \<Rightarrow> Window_t
     \<Rightarrow> GN_Read_Err \<times> GN_Data_t \<times> Window_t" where
  "get_timestamps h get_day_indexing Nps time info data winfo =
     (let t = \<lparr>t_hour = GN_DATE_HOUR h time, t_min = GN_DATE_MIN h time,
               t_sec = GN_DATE_SEC h time, t_msec = GN_DATE_MSEC h time * 1000\<rparr>;
          tm0 = \<lparr>tm_year = GN_DATE_YEAR h time - 1900, tm_mon = GN_DATE_MONTH h time - 1,
                 tm_mday = GN_DATE_DAY h time,
                 tm_hour = t_hour t, tm_min = t_min t, tm_sec = t_sec t\<rparr>;
          t0 = real_of_int (timegm tm0);
          t0' = t0 + real_of_int (t_msec t) / 1000000;
          data1 = data\<lparr>ts := ts_loop Nps t0' (fs info) 0 (ts data)\<rparr>;
          mdays = MAX_DAYS h;
          gns = GN_SAMPLES
      in case get_day_indexing (fs info) t mdays (w_n winfo) (bases winfo) (periods winfo)
                (max_n info) (npages info) gns
                (day_starts data1, i_start winfo, day_stops data1, i_stop winfo) of
           (starts, i_starts, stops, i_stops) \<Rightarrow>
             (GN_READ_E_NONE,
              data1\<lparr>day_starts := starts, day_stops := stops\<rparr>,
              winfo\<lparr>i_start := i_starts, i_stop := i_stops\<rparr>))"

subsection \<open>\<^verbatim>\<open>geneactiv_read_block\<close>\<close>

text \<open>Lines 135-162, from the read of the data line to the return; \<open>ier\<close> is the code
  set so far. The warning text written to the global \<^verbatim>\<open>warn_str\<close> is not part of the
  state.\<close>

definition read_block_data ::
  "imu_h \<Rightarrow> day_indexing \<Rightarrow> GN_Read_Err \<Rightarrow> int \<Rightarrow> cbuf \<Rightarrow> char \<Rightarrow> FILE \<Rightarrow> Window_t \<Rightarrow> GN_Info_t
     \<Rightarrow> GN_Data_t \<Rightarrow> c_fault + (GN_Read_Err \<times> FILE \<times> Window_t \<times> GN_Info_t \<times> GN_Data_t)" where
  "read_block_data h get_day_indexing ier Nps time p3 fp w_info info data =
     (case fgets 3610 fp of
        None \<Rightarrow> Inr (GN_READ_E_BLOCK_DATA, fp, w_info, info, data)
      | Some (l, fp1) \<Rightarrow>
          let data_str = store [] l
          in if strlen data_str < 3601 then Inr (GN_READ_E_BLOCK_DATA_3600, fp1, w_info, info, data)
             else
               (case block_loop data_str p3 info Nps 0 0 0 data of
                  Inl e \<Rightarrow> Inl e
                | Inr data1 \<Rightarrow>
                    (case get_timestamps h get_day_indexing Nps time info data1 w_info of
                       (e, data2, w_info1) \<Rightarrow> Inr (ier, fp1, w_info1, info, data2))))"

text \<open>Lines 96-133, then the rest. \<open>buff0\<close> and \<open>time0\<close> are what the local arrays
  \<^verbatim>\<open>buff\<close> and \<^verbatim>\<open>time\<close> hold when the function is entered, \<open>p3\<close> is the byte that
  \<^verbatim>\<open>p[3]\<close> holds.\<close>

definition geneactiv_read_block ::
  "imu_h \<Rightarrow> day_indexing \<Rightarrow> cbuf \<Rightarrow> cbuf \<Rightarrow> char \<Rightarrow> FILE \<Rightarrow> Window_t \<Rightarrow> GN_Info_t \<Rightarrow> GN_Data_t
     \<Rightarrow> c_fault + (GN_Read_Err \<times> FILE \<times> Window_t \<times> GN_Info_t \<times> GN_Data_t)" where
  "geneactiv_read_block h get_day_indexing buff0 time0 p3 fp w_info info data =
     (case GN_READLINE (GN_READLINE (GN_READLINE (buff0, fp))) of
        (buff1, fp1) \<Rightarrow>
          let N = strtol (cstr (drop 16 buff1)) 10
          in if N * GN_SAMPLES < LONG_MIN \<or> LONG_MAX < N * GN_SAMPLES then Inl SignedOverflow
             else
               let Nps = N * GN_SAMPLES;
                   info1 = info\<lparr>max_n := (if N > max_n info then N else max_n info)\<rparr>
               in case fgets 40 fp1 of
                    None \<Rightarrow> Inr (GN_READ_E_BLOCK_TIMESTAMP, fp1, w_info, info1, data)
                  | Some (l, fp2) \<Rightarrow>
                      let time = store time0 l
                      in case GN_READLINE (GN_READLINE (buff1, fp2)) of
                           (buff2, fp3) \<Rightarrow>
                             let temp' = strtod (cstr (drop 12 buff2))
                             in if Nps < INT_MIN \<or> INT_MAX < Nps then Inl IntNarrowing
                                else
                                  (case temp_loop Nps (Nps + GN_SAMPLES) temp' (temp data) of
                                     Inl e \<Rightarrow> Inl e
                                   | Inr tmp \<Rightarrow>
                                       let data1 = data\<lparr>temp := tmp\<rparr>
                                       in case GN_READLINE (GN_READLINE (GN_READLINE (buff2, fp3))) of
                                            (buff3, fp4) \<Rightarrow>
                                              let fs' = strtod (cstr (drop 22 buff3))
                                              in if fs' \<noteq> fs info1 \<and> fs_err info1 < 1 then
                                                   read_block_data h get_day_indexing GN_READ_E_BLOCK_FS_WARN
                                                     Nps time p3 fp4 w_info
                                                     (info1\<lparr>fs_err := fs_err info1 + 1, fs := fs'\<rparr>) data1
                                                 else if fs' \<noteq> fs info1 \<and> fs_err info1 \<ge> 1 then
                                                   Inr (GN_READ_E_BLOCK_FS, fp4, w_info, info1, data1)
                                                 else
                                                   read_block_data h get_day_indexing GN_READ_E_NONE
                                                     Nps time p3 fp4 w_info info1 data1))"

subsection \<open>\<^verbatim>\<open>roll_median\<close>\<close>

text \<open>The array that \<^verbatim>\<open>PyArray_FromAny\<close> hands back: its shape and its elements, contiguous
  in C order.\<close>

record ndarray =
  dims :: "nat list"
  elems :: "real list"

text \<open>\<^verbatim>\<open>gsl_movstat_median\<close> of the GNU Scientific Library with \<^verbatim>\<open>GSL_MOVSTAT_END_PADZERO\<close>
  and a workspace from \<^verbatim>\<open>gsl_movstat_alloc(K)\<close>, as its manual states it: the window of
  sample \<open>i\<close> holds the samples \<open>i - K div 2\<close> to \<open>i + K div 2\<close>, zero where the
  sequence has none, and the output is the median of the window.\<close>

definition gsl_movstat_median_padzero :: "nat \<Rightarrow> real list \<Rightarrow> real list" where
  "gsl_movstat_median_padzero K x =
     (let H = K div 2
      in map (\<lambda>i. sort (map (\<lambda>k. if H \<le> i + k \<and> i + k - H < length x then x ! (i + k - H) else 0)
                              [0..<2 * H + 1]) ! H)
             [0..<length x])"

text \<open>Writing a vector into an array from element \<open>p\<close> on.\<close>

definition write_at :: "real list \<Rightarrow> nat \<Rightarrow> real list \<Rightarrow> real list" where
  "write_at out p ys = take p out @ ys @ drop (p + length ys) out"

text \<open>Lines 57-65: one call of \<^verbatim>\<open>gsl_movstat_median\<close> per slice, the two pointers moved on by
  \<^verbatim>\<open>stride\<close>.\<close>

function median_loop ::
  "nat \<Rightarrow> nat \<Rightarrow> nat \<Rightarrow> nat \<Rightarrow> nat \<Rightarrow> nat \<Rightarrow> real list \<Rightarrow> real list \<Rightarrow> real list" where
  "median_loop K stride i nrepeats dptr rptr d out =
     (if i < nrepeats then
        median_loop K stride (i + 1) nrepeats (dptr + stride) (rptr + stride) d
          (write_at out rptr (gsl_movstat_median_padzero K (take stride (drop dptr d))))
      else out)"
  by pat_completeness auto
termination
  by (relation "measure (\<lambda>(K, stride, i, nrepeats, dptr, rptr, d, out). nrepeats - i)") auto

declare median_loop.simps [simp del]

text \<open>Lines 14-70, after the arguments are parsed. \<open>rmean0\<close> is what the array from
  \<^verbatim>\<open>PyArray_EMPTY\<close> holds. \<^verbatim>\<open>PyArray_FromAny\<close> with a least depth of 1 refuses an array without
  dimensions and the function returns NULL (\<open>None\<close>); a negative \<^verbatim>\<open>wlen\<close> is a size that
  cannot be allocated; \<^verbatim>\<open>PyArray_SIZE(data) / stride\<close> divides by the last dimension; the
  quotient is stored in an \<^verbatim>\<open>int\<close>.\<close>

definition roll_median :: "real list \<Rightarrow> ndarray \<Rightarrow> int \<Rightarrow> c_fault + ndarray option" where
  "roll_median rmean0 x0 wlen =
     (if dims x0 = [] then Inr None
      else if wlen < 0 then Inl AllocationFailure
      else
        let stride = last (dims x0)
        in if stride = 0 then Inl DivisionByZero
           else
             let nrepeats = prod_list (dims x0) div stride
             in if INT_MAX < int nrepeats then Inl IntNarrowing
                else Inr (Some \<lparr>dims = dims x0,
                                elems = median_loop (nat wlen) stride 0 nrepeats 0 0 (elems x0) rmean0\<rparr>))"

subsection \<open>What a call reads and what it writes\<close>

text \<open>The lines of a block in front of its data line, as \<^verbatim>\<open>geneactiv_read_block\<close> reads
  them: the sequence number, the characters of the clock-stamp line, the temperature, the
  declared sampling rate and the stream behind the rate line. \<open>None\<close> when the stream ends
  in front of the clock-stamp line.\<close>

definition block_head :: "cbuf \<Rightarrow> FILE \<Rightarrow> (int \<times> string \<times> real \<times> real \<times> FILE) option" where
  "block_head buff0 fp =
     (case GN_READLINE (GN_READLINE (GN_READLINE (buff0, fp))) of
        (buff1, fp1) \<Rightarrow>
          (case fgets 40 fp1 of
             None \<Rightarrow> None
           | Some (l, fp2) \<Rightarrow>
               (case GN_READLINE (GN_READLINE (buff1, fp2)) of
                  (buff2, fp3) \<Rightarrow>
                    (case GN_READLINE (GN_READLINE (GN_READLINE (buff2, fp3))) of
                       (buff3, fp4) \<Rightarrow>
                         Some (strtol (cstr (drop 16 buff1)) 10, l, strtod (cstr (drop 12 buff2)),
                               strtod (cstr (drop 22 buff3)), fp4)))))"

text \<open>Field \<open>f\<close> (0, 1, 2 the axes, 3 the light) of group \<open>g\<close> of a data line.\<close>
definition field :: "cbuf \<Rightarrow> nat \<Rightarrow> nat \<Rightarrow> string" where
  "field data_str g f = take 3 (drop (12 * g + 3 * f) data_str)"

definition accel_value :: "GN_Info_t \<Rightarrow> nat \<Rightarrow> string \<Rightarrow> real" where
  "accel_value info k p =
     (let t = strtol p 16; t' = (if t > 2047 then - 4096 + t else t)
      in (real_of_int t' * 100 - offset info k) / gain info k)"

definition light_value :: "GN_Info_t \<Rightarrow> string \<Rightarrow> real" where
  "light_value info p = real_of_int (drop_bit 2 (strtol p 16)) * (lux info / volts info)"

text \<open>The acceleration and light arrays behind the groups from \<open>g\<close> on.\<close>

definition acc_written :: "cbuf \<Rightarrow> GN_Info_t \<Rightarrow> int \<Rightarrow> nat \<Rightarrow> (int \<Rightarrow> real) \<Rightarrow> int \<Rightarrow> real" where
  "acc_written d info Nps g a =
     (\<lambda>x. if Nps * 3 + 3 * int g \<le> x \<and> x < Nps * 3 + 900
          then accel_value info (nat (x - Nps * 3) mod 3) (field d (nat (x - Nps * 3) div 3) (nat (x - Nps * 3) mod 3))
          else a x)"

definition light_written :: "cbuf \<Rightarrow> GN_Info_t \<Rightarrow> int \<Rightarrow> nat \<Rightarrow> (int \<Rightarrow> real) \<Rightarrow> int \<Rightarrow> real" where
  "light_written d info Nps g a =
     (\<lambda>x. if Nps + int g \<le> x \<and> x < Nps + 300 then light_value info (field d (nat (x - Nps)) 3) else a x)"

text \<open>Whether \<^verbatim>\<open>strtol\<close> stops within the array \<^verbatim>\<open>p\<close> when it reads a field: \<^verbatim>\<open>p\<close> holds
  the three characters of the field and the byte \<open>p3\<close>. \<open>reads_in_p d p3 g\<close> says so of every
  field of the groups from \<open>g\<close> on.\<close>

definition field_in_p :: "cbuf \<Rightarrow> char \<Rightarrow> nat \<Rightarrow> nat \<Rightarrow> bool" where
  "field_in_p d p3 g f = (strtol_stop (field d g f @ [p3]) 16 \<noteq> [])"

definition reads_in_p :: "cbuf \<Rightarrow> char \<Rightarrow> nat \<Rightarrow> bool" where
  "reads_in_p d p3 g = (\<forall>g'\<in>{g..<300}. \<forall>f\<in>{0..<4}. field_in_p d p3 g' f)"



text \<open>The time \<^verbatim>\<open>t0\<close> that \<^verbatim>\<open>get_timestamps\<close> computes from a clock stamp: \<^verbatim>\<open>timegm\<close> of
  the calendar fields plus the millisecond field, which the code scales by 1000 and
  divides by 1000000.\<close>

definition block_t0 :: "imu_h \<Rightarrow> cbuf \<Rightarrow> real" where
  "block_t0 h time =
     real_of_int (timegm \<lparr>tm_year = GN_DATE_YEAR h time - 1900, tm_mon = GN_DATE_MONTH h time - 1,
                          tm_mday = GN_DATE_DAY h time, tm_hour = GN_DATE_HOUR h time,
                          tm_min = GN_DATE_MIN h time, tm_sec = GN_DATE_SEC h time\<rparr>)
       + real_of_int (GN_DATE_MSEC h time * 1000) / 1000000"

subsection \<open>A block of a recording\<close>

text \<open>Concrete inputs for the examples: readers of a clock stamp laid out as
  \<^verbatim>\<open>Page Time:YYYY-MM-DD hh:mm:ss:mmm\<close>, an indexing routine that leaves the index arrays
  alone, a header, empty arrays, and the text of a block with sequence number 2.\<close>

definition ex_h :: imu_h where
  "ex_h = \<lparr>GN_DATE_YEAR = (\<lambda>t. strtol (cstr (drop 10 t)) 10),
           GN_DATE_MONTH = (\<lambda>t. strtol (cstr (drop 15 t)) 10),
           GN_DATE_DAY = (\<lambda>t. strtol (cstr (drop 18 t)) 10),
           GN_DATE_HOUR = (\<lambda>t. strtol (cstr (drop 21 t)) 10),
           GN_DATE_MIN = (\<lambda>t. strtol (cstr (drop 24 t)) 10),
           GN_DATE_SEC = (\<lambda>t. strtol (cstr (drop 27 t)) 10),
           GN_DATE_MSEC = (\<lambda>t. strtol (cstr (drop 30 t)) 10),
           MAX_DAYS = 25\<rparr>"

definition ex_indexing :: day_indexing where
  "ex_indexing = (\<lambda>f t mdays n bs ps mx np gns idx. idx)"

definition ex_info :: GN_Info_t where
  "ex_info = \<lparr>fs = 100, gain = (\<lambda>k. 25000), offset = (\<lambda>k. 500), volts = 300, lux = 1000,
              npages = 10, max_n = 0, fs_err = 0\<rparr>"

definition ex_data :: GN_Data_t where
  "ex_data = \<lparr>ts = (\<lambda>i. 0), acc = (\<lambda>i. 0), light = (\<lambda>i. 0), temp = (\<lambda>i. 0),
              day_starts = (\<lambda>i. 0), day_stops = (\<lambda>i. 0)\<rparr>"

definition ex_w :: Window_t where
  "ex_w = \<lparr>w_n = 0, bases = (\<lambda>i. 0), periods = (\<lambda>i. 0), i_start = (\<lambda>i. 0), i_stop = (\<lambda>i. 0)\<rparr>"

definition ex_stamp :: string where
  "ex_stamp = ''Page Time:2020-01-01 00:00:00:500'' @ [NL]"

definition ex_block :: "string \<Rightarrow> FILE \<Rightarrow> FILE" where
  "ex_block f rest =
     ''Recorded Data'' @ NL #
     ''Device Unique Serial Code:012345'' @ NL #
     ''Sequence Number:2'' @ NL #
     ex_stamp @
     ''Unassigned:'' @ NL #
     ''Temperature:21.5'' @ NL #
     ''Battery voltage:4.0'' @ NL #
     ''Device Status:Recording'' @ NL #
     ''Measurement Frequency:'' @ f @ NL # rest"


definition ex_line :: string where
  "ex_line = concat (replicate 300 ''8007ff00103f'')"



text \<open>A header of 59 lines, its line 54 (the volts) a parameter.\<close>

definition text_lines :: "string list \<Rightarrow> FILE" where
  "text_lines ls = concat (map (\<lambda>l. l @ [NL]) ls)"

text \<open>A line that \<^verbatim>\<open>fgets(buff, 255, fp)\<close> reads whole, and a line with a colon behind
  its key: \<^verbatim>\<open>strtok\<close> then finds a value, which holds at least the end of the line.\<close>

definition header_line :: "string \<Rightarrow> bool" where
  "header_line l = (NL \<notin> set l \<and> NUL \<notin> set l \<and> length l < 254)"

definition has_value :: "string \<Rightarrow> bool" where
  "has_value l = (CHR '':'' \<in> set (dropWhile (\<lambda>c. c = CHR '':'') l))"

definition ex_header_lines :: "string \<Rightarrow> string list" where
  "ex_header_lines vline =
     replicate 19 ''Device'' @ [''Measurement Frequency:100 Hz''] @ replicate 27 ''Subject'' @
     [''x gain:25548'', ''x offset:-1430'', ''y gain:25690'', ''y offset:-1520'',
      ''z gain:25280'', ''z offset:40'', vline, ''Lux:1000'', ''Recording'', ''Memory Status'',
      ''Number of Pages:12345'', ''Recorded Data Start'']"

subsection \<open>Where \<^verbatim>\<open>strtol\<close> stops\<close>

lemma strtol_digits_snoc:
  "dropWhile (digit_in b) (s @ [c]) \<noteq> [] \<Longrightarrow>
   strtol_digits b a (s @ [c]) = strtol_digits b a s"
proof (induction s arbitrary: a)
  case Nil
  then show ?case by (auto simp: digit_in_def split: option.splits if_splits)
next
  case (Cons y s)
  show ?case
  proof (cases "digit_in b y")
    case True
    with Cons.prems have "dropWhile (digit_in b) (s @ [c]) \<noteq> []"
      by simp
    from Cons.IH[OF this] True show ?thesis by (auto simp: digit_in_def split: option.splits)
  next
    case False
    then show ?thesis by (auto simp: digit_in_def split: option.splits)
  qed
qed

lemma skip_0x_snoc:
  "dropWhile (digit_in b) (skip_0x (s @ [c])) \<noteq> [] \<Longrightarrow>
   skip_0x (s @ [c]) = skip_0x s @ [c]"
  by (auto simp: skip_0x_def split: list.splits if_splits)

lemma strtol_snoc:
  assumes "strtol_stop (s @ [c]) b \<noteq> []"
  shows "strtol (s @ [c]) b = strtol s b"
proof (cases "dropWhile isspace s")
  case Nil
  then have all: "\<forall>x\<in>set s. isspace x" by (simp add: dropWhile_eq_Nil_conv)
  then have d: "dropWhile isspace (s @ [c]) = dropWhile isspace [c]" by (simp add: dropWhile_append)
  show ?thesis
  proof (cases "isspace c")
    case True
    with assms d show ?thesis by (simp add: strtol_stop_def skip_sign_def skip_0x_def)
  next
    case False
    have z: "strtol s b = 0"
      unfolding strtol_def Nil by (simp add: skip_sign_def skip_0x_def LONG_MAX_def)
    have sg: "c \<noteq> CHR ''-''" "c \<noteq> CHR ''+''"
      using assms False by (auto simp: strtol_stop_def d skip_sign_def skip_0x_def split: if_splits)
    then have "\<not> digit_in b c"
      using assms False by (auto simp: strtol_stop_def d skip_sign_def skip_0x_def split: if_splits)
    with sg have "c \<noteq> CHR ''-''" "c \<noteq> CHR ''+''" "\<not> digit_in b c" by simp_all
    then have "strtol (s @ [c]) b = 0"
      unfolding strtol_def d using False
      by (auto simp: skip_sign_def skip_0x_def LONG_MAX_def digit_in_def split: option.splits)
    with z show ?thesis by simp
  qed
next
  case (Cons x r)
  then have ne: "\<not> (\<forall>y\<in>set s. isspace y)" by (auto simp: dropWhile_eq_Nil_conv[symmetric])
  then have d: "dropWhile isspace (s @ [c]) = x # r @ [c]" using Cons
    by (auto simp: dropWhile_append)
  obtain neg r' where ss: "skip_sign (x # r) = (neg, r')" by (cases "skip_sign (x # r)") auto
  then have ss2: "skip_sign (x # r @ [c]) = (neg, r' @ [c])"
    by (auto simp: skip_sign_def split: if_splits)
  show ?thesis
  proof (cases "b = 16")
    case True
    from assms have st: "dropWhile (digit_in 16) (skip_0x (r' @ [c])) \<noteq> []"
      by (simp add: strtol_stop_def d ss2 True)
    from skip_0x_snoc[OF st] have sk: "skip_0x (r' @ [c]) = skip_0x r' @ [c]" .
    from st sk have "strtol_digits 16 0 (skip_0x r' @ [c]) = strtol_digits 16 0 (skip_0x r')"
      by (simp add: strtol_digits_snoc)
    then show ?thesis by (simp add: strtol_def d Cons ss ss2 True sk)
  next
    case False
    from assms have st: "dropWhile (digit_in b) (r' @ [c]) \<noteq> []"
      by (simp add: strtol_stop_def d ss2 False)
    then have "strtol_digits b 0 (r' @ [c]) = strtol_digits b 0 r'"
      by (simp add: strtol_digits_snoc)
    then show ?thesis by (simp add: strtol_def d Cons ss ss2 False)
  qed
qed

lemma strtol_in_p:
  assumes "NUL \<notin> set f" "strtol_stop (f @ [c]) b \<noteq> []"
  shows "strtol (cstr (f @ [c])) b = strtol f b"
proof (cases "c = NUL")
  case True
  with assms(1) have "cstr (f @ [c]) = f" by (simp add: cstr_def takeWhile_append)
  then show ?thesis by simp
next
  case False
  with assms(1) have "cstr (f @ [c]) = f @ [c]" by (simp add: cstr_def takeWhile_append)
  with strtol_snoc[OF assms(2)] show ?thesis by simp
qed

lemma strtol_stop_last:
  assumes "\<not> isspace c" "c \<noteq> CHR ''-''" "c \<noteq> CHR ''+''" "c \<noteq> CHR ''x''" "c \<noteq> CHR ''X''"
    "\<not> digit_in b c"
  shows "strtol_stop (s @ [c]) b \<noteq> []"
proof -
  let ?D = "digit_in b"
  have a: "\<exists>t. dropWhile isspace (s @ [c]) = t @ [c]"
    using assms(1) by (induction s) auto
  then obtain t where t: "dropWhile isspace (s @ [c]) = t @ [c]" by blast
  obtain neg r where ss: "skip_sign (t @ [c]) = (neg, r)" by (cases "skip_sign (t @ [c])") auto
  have r: "\<exists>u. r = u @ [c]"
    using ss assms(2,3) by (cases t) (auto simp: skip_sign_def split: if_splits)
  then obtain u where u: "r = u @ [c]" by blast
  have sk: "\<exists>v. skip_0x (u @ [c]) = v @ [c]"
  proof (cases u)
    case Nil
    then show ?thesis by (simp add: skip_0x_def)
  next
    case (Cons y ys)
    show ?thesis
    proof (cases ys)
      case Nil
      with Cons assms(4,5) show ?thesis by (simp add: skip_0x_def)
    next
      case (Cons z zs)
      with \<open>u = y # ys\<close> show ?thesis by (simp add: skip_0x_def)
    qed
  qed
  have dw: "dropWhile ?D (v @ [c]) \<noteq> []" for v
    using assms(6) by (induction v) auto
  from sk obtain v where v: "skip_0x (u @ [c]) = v @ [c]" by blast
  show ?thesis
  proof (cases "b = 16")
    case True
    have "strtol_stop (s @ [c]) b = dropWhile (digit_in b) (v @ [c])"
      by (simp add: strtol_stop_def t ss u v True)
    with dw[of v] show ?thesis by simp
  next
    case False
    have "strtol_stop (s @ [c]) b = dropWhile (digit_in b) (u @ [c])"
      by (simp add: strtol_stop_def t ss u False)
    with dw[of u] show ?thesis by simp
  qed
qed

lemma strtol_stop_NUL: "strtol_stop (s @ [NUL]) b \<noteq> []"
  by (rule strtol_stop_last) (simp_all add: isspace_def NUL_def digit_of_def digit_in_def)

lemma field_in_line:
  assumes "3601 \<le> strlen d" "g < 300" "k < 4"
  shows "NUL \<notin> set (field d g k)"
proof
  assume a: "NUL \<in> set (field d g k)"
  define n where "n = 12 * g + 3 * k"
  from assms have n: "n + 3 \<le> strlen d" by (simp add: n_def)
  have "field d g k = drop n (take (n + 3) d)"
    by (simp add: field_def n_def drop_take)
  with a have "NUL \<in> set (take (n + 3) d)" by (auto dest: in_set_dropD)
  moreover have "take (n + 3) d = take (n + 3) (cstr d)"
  proof -
    have "cstr d = take (strlen d) d"
      unfolding cstr_def strlen_def by (rule takeWhile_eq_take)
    then have "take (n + 3) (cstr d) = take (min (n + 3) (strlen d)) d" by simp
    with n show ?thesis by (simp add: min_def)
  qed
  ultimately have "NUL \<in> set (cstr d)" by (auto dest: in_set_takeD)
  then show False by (auto simp: cstr_def dest: set_takeWhileD)
qed

lemma accel_value_in_p:
  "NUL \<notin> set f \<Longrightarrow> strtol_stop (f @ [c]) 16 \<noteq> [] \<Longrightarrow> accel_value info k (cstr (f @ [c])) = accel_value info k f"
  by (simp add: accel_value_def strtol_in_p)

lemma light_value_in_p:
  "NUL \<notin> set f \<Longrightarrow> strtol_stop (f @ [c]) 16 \<noteq> [] \<Longrightarrow> light_value info (cstr (f @ [c])) = light_value info f"
  by (simp add: light_value_def strtol_in_p)

lemma reads_in_p_step:
  assumes "g < 300"
  shows "reads_in_p d p3 g =
    (field_in_p d p3 g 0 \<and> field_in_p d p3 g 1 \<and> field_in_p d p3 g 2 \<and> field_in_p d p3 g 3 \<and>
     reads_in_p d p3 (Suc g))"
proof -
  have f: "(\<forall>f\<in>{0..<4}. P f) = (P 0 \<and> P 1 \<and> P 2 \<and> P (3::nat))" for P
  proof
    assume "\<forall>f\<in>{0..<4}. P f"
    then show "P 0 \<and> P 1 \<and> P 2 \<and> P 3" by simp
  next
    assume a: "P 0 \<and> P 1 \<and> P 2 \<and> P 3"
    show "\<forall>f\<in>{0..<4}. P f"
    proof
      fix f :: nat assume "f \<in> {0..<4}"
      then consider "f = 0" | "f = 1" | "f = 2" | "f = 3" by force
      then show "P f" using a by cases simp_all
    qed
  qed
  from assms have "{g..<300} = insert g {Suc g..<300}" by auto
  then show ?thesis by (simp add: reads_in_p_def f)
qed

lemma reads_in_p_300: "reads_in_p d p3 300"
  by (simp add: reads_in_p_def)

lemma reads_in_p_stopper:
  assumes "\<not> isspace c" "c \<noteq> CHR ''-''" "c \<noteq> CHR ''+''" "c \<noteq> CHR ''x''" "c \<noteq> CHR ''X''"
    "\<not> digit_in 16 c"
  shows "reads_in_p d c g"
  by (simp add: reads_in_p_def field_in_p_def strtol_stop_last[OF assms])

lemma reads_in_p_NUL: "reads_in_p d NUL g"
  by (simp add: reads_in_p_def field_in_p_def strtol_stop_NUL)

subsection \<open>The loops, in closed form\<close>

lemma temp_loop_Inr:
  "temp_loop i hi v a = Inr a' \<Longrightarrow> a' = (\<lambda>x. if i \<le> x \<and> x < hi then v else a x)"
proof (induction i hi v a rule: temp_loop.induct)
  case (1 i hi v a)
  show ?case
  proof (cases "i < hi")
    case True
    from "1.prems" True have ne: "i \<noteq> INT_MAX"
      by (subst (asm) temp_loop.simps) (simp split: if_splits)
    from "1.prems" True ne have r: "temp_loop (i + 1) hi v (a(i := v)) = Inr a'"
      by (subst (asm) temp_loop.simps) simp
    have "a' = (\<lambda>x. if i + 1 \<le> x \<and> x < hi then v else (a(i := v)) x)"
      by (rule "1.IH"[OF True ne r])
    with True show ?thesis by (auto simp: fun_eq_iff)
  next
    case False
    with "1.prems" have "a' = a" by (subst (asm) temp_loop.simps) simp
    with False show ?thesis by (auto simp: fun_eq_iff)
  qed
qed

lemma temp_loop_ok:
  "hi \<le> INT_MAX \<Longrightarrow> temp_loop i hi v a = Inr (\<lambda>x. if i \<le> x \<and> x < hi then v else a x)"
proof (induction i hi v a rule: temp_loop.induct)
  case (1 i hi v a)
  show ?case
  proof (cases "i < hi")
    case True
    with "1.prems" have ne: "i \<noteq> INT_MAX" by simp
    have "temp_loop i hi v a = temp_loop (i + 1) hi v (a(i := v))"
      using True ne by (subst temp_loop.simps) simp
    also have "\<dots> = Inr (\<lambda>x. if i + 1 \<le> x \<and> x < hi then v else (a(i := v)) x)"
      by (rule "1.IH"[OF True ne "1.prems"])
    also have "(\<lambda>x. if i + 1 \<le> x \<and> x < hi then v else (a(i := v)) x) =
        (\<lambda>x. if i \<le> x \<and> x < hi then v else a x)"
      using True by (auto simp: fun_eq_iff)
    finally show ?thesis .
  next
    case False
    have "temp_loop i hi v a = Inr a" using False by (subst temp_loop.simps) simp
    moreover have "a = (\<lambda>x. if i \<le> x \<and> x < hi then v else a x)"
      using False by (auto simp: fun_eq_iff)
    ultimately show ?thesis by simp
  qed
qed

lemma acc_loop_field:
  assumes "k < 3" "NUL \<notin> set (field d g k)"
  shows "acc_loop d p3 info Nps (12 * g) k j a =
     (if field_in_p d p3 g k
      then acc_loop d p3 info Nps (12 * g) (Suc k) (Suc j)
             (a(Nps * 3 + int j := accel_value info k (field d g k)))
      else Inl OutOfBounds)"
proof -
  have f: "take 3 (drop (12 * g + k * 3) d) = field d g k"
    by (simp add: field_def mult.commute)
  show ?thesis
    using assms
    by (subst acc_loop.simps)
       (simp add: f field_in_p_def Let_def strtol_in_p accel_value_def)
qed

lemma acc_loop_stop: "acc_loop d p3 info Nps i (Suc (Suc (Suc 0))) j a = Inr (j, a)"
  by (subst acc_loop.simps) simp

lemma acc_loop_unroll:
  assumes "NUL \<notin> set (field d g 0)" "NUL \<notin> set (field d g 1)" "NUL \<notin> set (field d g 2)"
  shows "acc_loop d p3 info Nps (12 * g) 0 j a =
     (if field_in_p d p3 g 0 \<and> field_in_p d p3 g 1 \<and> field_in_p d p3 g 2
      then Inr (j + 3, a(Nps * 3 + int j := accel_value info 0 (field d g 0),
                        Nps * 3 + int j + 1 := accel_value info 1 (field d g 1),
                        Nps * 3 + int j + 2 := accel_value info 2 (field d g 2)))
      else Inl OutOfBounds)"
proof -
  have n2: "NUL \<notin> set (field d g (Suc (Suc 0)))" and n1: "NUL \<notin> set (field d g (Suc 0))"
    using assms by (simp_all add: numeral_2_eq_2)
  have e: "Nps * 3 + int (Suc j) = Nps * 3 + int j + 1" "Nps * 3 + int (Suc (Suc j)) = Nps * 3 + int j + 2"
    "Suc (Suc (Suc j)) = j + 3" "Suc (Suc 0) = 2"
    by simp_all
  have "acc_loop d p3 info Nps (12 * g) 0 j a =
     (if field_in_p d p3 g 0 \<and> field_in_p d p3 g (Suc 0) \<and> field_in_p d p3 g (Suc (Suc 0))
      then Inr (Suc (Suc (Suc j)), a(Nps * 3 + int j := accel_value info 0 (field d g 0),
                        Nps * 3 + int (Suc j) := accel_value info (Suc 0) (field d g (Suc 0)),
                        Nps * 3 + int (Suc (Suc j)) := accel_value info (Suc (Suc 0)) (field d g (Suc (Suc 0)))))
      else Inl OutOfBounds)"
    by (simp only: acc_loop_field[OF _ assms(1)] acc_loop_field[OF _ n1] acc_loop_field[OF _ n2]
          acc_loop_stop zero_less_numeral lessI Suc_lessI numeral_3_eq_3 Suc_less_eq zero_less_Suc split: if_splits)
       simp
  then show ?thesis unfolding e(1,2,3) by (simp only: numeral_2_eq_2 One_nat_def)
qed

lemma block_loop_step:
  "i < 3600 \<Longrightarrow> block_loop d p3 info Nps i j jj data =
     (case acc_loop d p3 info Nps i 0 j (acc data) of
        Inl e \<Rightarrow> Inl e
      | Inr (j', a) \<Rightarrow>
          if strtol_stop (take 3 (drop (i + 9) d) @ [p3]) 16 = [] then Inl OutOfBounds
          else block_loop d p3 info Nps (i + 12) j' (jj + 1)
                 (data\<lparr>acc := a,
                       light := (light data)
                         (Nps + int jj := light_value info (cstr (take 3 (drop (i + 9) d) @ [p3])))\<rparr>))"
  by (subst block_loop.simps) (simp add: light_value_def Let_def split: sum.splits)

lemma block_loop_stop: "\<not> i < 3600 \<Longrightarrow> block_loop d p3 info Nps i j jj data = Inr data"
  by (subst block_loop.simps) simp

lemma acc_written_step:
  "g < 300 \<Longrightarrow>
   acc_written d info Nps (Suc g)
     (a(Nps * 3 + int (3 * g) := accel_value info 0 (field d g 0),
        Nps * 3 + int (3 * g) + 1 := accel_value info 1 (field d g 1),
        Nps * 3 + int (3 * g) + 2 := accel_value info 2 (field d g 2)))
   = acc_written d info Nps g a"
proof (rule ext)
  fix x
  assume g: "g < 300"
  consider "x < Nps * 3 + 3 * int g" | "x = Nps * 3 + 3 * int g" | "x = Nps * 3 + 3 * int g + 1"
    | "x = Nps * 3 + 3 * int g + 2" | "Nps * 3 + 3 * int g + 3 \<le> x"
    by arith
  then show "acc_written d info Nps (Suc g)
     (a(Nps * 3 + int (3 * g) := accel_value info 0 (field d g 0),
        Nps * 3 + int (3 * g) + 1 := accel_value info 1 (field d g 1),
        Nps * 3 + int (3 * g) + 2 := accel_value info 2 (field d g 2))) x
   = acc_written d info Nps g a x"
  proof cases
    case 1
    then show ?thesis by (simp add: acc_written_def)
  next
    case 2
    then have "nat (x - Nps * 3) = 3 * g + 0" by simp
    moreover have "(3 * g + 0) div 3 = g" "(3 * g + 0) mod 3 = 0" by presburger+
    ultimately have "nat (x - Nps * 3) div 3 = g" "nat (x - Nps * 3) mod 3 = 0" by simp_all
    with 2 g show ?thesis by (simp add: acc_written_def)
  next
    case 3
    then have "nat (x - Nps * 3) = 3 * g + 1" by simp
    moreover have "(3 * g + 1) div 3 = g" "(3 * g + 1) mod 3 = 1" by presburger+
    ultimately have "nat (x - Nps * 3) div 3 = g" "nat (x - Nps * 3) mod 3 = 1" by simp_all
    with 3 g show ?thesis by (simp add: acc_written_def)
  next
    case 4
    then have "nat (x - Nps * 3) = 3 * g + 2" by simp
    moreover have "(3 * g + 2) div 3 = g" "(3 * g + 2) mod 3 = 2" by presburger+
    ultimately have "nat (x - Nps * 3) div 3 = g" "nat (x - Nps * 3) mod 3 = 2" by simp_all
    with 4 g show ?thesis by (simp add: acc_written_def)
  next
    case 5
    then show ?thesis by (simp add: acc_written_def)
  qed
qed

lemma light_written_step:
  "g < 300 \<Longrightarrow> light_written d info Nps (Suc g) (a(Nps + int g := light_value info (field d g 3)))
   = light_written d info Nps g a"
  by (rule ext) (auto simp: light_written_def)

lemma block_loop_from:
  assumes len: "3601 \<le> strlen d"
  shows "g \<le> 300 \<Longrightarrow> n = 300 - g \<Longrightarrow>
   block_loop d p3 info Nps (12 * g) (3 * g) g data =
     (if reads_in_p d p3 g
      then Inr (data\<lparr>acc := acc_written d info Nps g (acc data),
                     light := light_written d info Nps g (light data)\<rparr>)
      else Inl OutOfBounds)"
proof (induction n arbitrary: g data)
  case 0
  then have g: "g = 300" by simp
  have "acc_written d info Nps 300 (acc data) = acc data"
    by (rule ext) (simp add: acc_written_def)
  moreover have "light_written d info Nps 300 (light data) = light data"
    by (rule ext) (simp add: light_written_def)
  ultimately show ?case using g by (simp add: block_loop_stop reads_in_p_300)
next
  case (Suc n)
  then have g: "g < 300" and n: "n = 300 - Suc g" by simp_all
  have f9: "take 3 (drop (12 * g + 9) d) = field d g 3" "take 3 (drop (9 + 12 * g) d) = field d g 3"
    by (simp_all add: field_def add.commute)
  note nn = field_in_line[OF len g]
  have n0: "NUL \<notin> set (field d g 0)" and n1: "NUL \<notin> set (field d g 1)"
    and n2: "NUL \<notin> set (field d g 2)" and n3: "NUL \<notin> set (field d g 3)"
    by (simp_all add: nn)
  let ?a = "(acc data)(Nps * 3 + int (3 * g) := accel_value info 0 (field d g 0),
                 Nps * 3 + int (3 * g) + 1 := accel_value info 1 (field d g 1),
                 Nps * 3 + int (3 * g) + 2 := accel_value info 2 (field d g 2))"
  let ?l = "(light data)(Nps + int g := light_value info (field d g 3))"
  have i: "12 * g < 3600" using g by simp
  show ?case
  proof (cases "field_in_p d p3 g 0 \<and> field_in_p d p3 g 1 \<and> field_in_p d p3 g 2")
    case False
    then have "\<not> reads_in_p d p3 g" by (auto simp: reads_in_p_step[OF g])
    moreover from False have "acc_loop d p3 info Nps (12 * g) 0 (3 * g) (acc data) = Inl OutOfBounds"
      unfolding acc_loop_unroll[OF n0 n1 n2] by (rule if_not_P)
    then have "block_loop d p3 info Nps (12 * g) (3 * g) g data = Inl OutOfBounds"
      by (simp add: block_loop_step[OF i])
    ultimately show ?thesis by simp
  next
    case True
    then have al: "acc_loop d p3 info Nps (12 * g) 0 (3 * g) (acc data) = Inr (3 * g + 3, ?a)"
      unfolding acc_loop_unroll[OF n0 n1 n2] by (rule if_P)
    show ?thesis
    proof (cases "field_in_p d p3 g 3")
      case False
      then have "\<not> reads_in_p d p3 g" by (auto simp: reads_in_p_step[OF g])
      moreover have "block_loop d p3 info Nps (12 * g) (3 * g) g data = Inl OutOfBounds"
        using False by (simp add: block_loop_step[OF i] al f9 field_in_p_def)
      ultimately show ?thesis by simp
    next
      case f3: True
      then have st: "strtol_stop (field d g 3 @ [p3]) 16 \<noteq> []" by (simp add: field_in_p_def)
      have r: "reads_in_p d p3 g = reads_in_p d p3 (Suc g)"
        using True f3 by (simp add: reads_in_p_step[OF g])
      have "block_loop d p3 info Nps (12 * g) (3 * g) g data =
          block_loop d p3 info Nps (12 * Suc g) (3 * Suc g) (Suc g) (data\<lparr>acc := ?a, light := ?l\<rparr>)"
        using st by (simp add: block_loop_step[OF i] al f9 light_value_in_p[OF n3 st] add.commute)
      also have "\<dots> = (if reads_in_p d p3 (Suc g)
          then Inr (data\<lparr>acc := acc_written d info Nps g (acc data),
                         light := light_written d info Nps g (light data)\<rparr>)
          else Inl OutOfBounds)"
        using g n by (subst Suc.IH) (simp_all add: acc_written_step[simplified] light_written_step)
      finally show ?thesis by (simp only: r)
    qed
  qed
qed

lemma block_loop_eq:
  "3601 \<le> strlen d \<Longrightarrow> block_loop d p3 info Nps 0 0 0 data =
     (if reads_in_p d p3 0
      then Inr (data\<lparr>acc := acc_written d info Nps 0 (acc data),
                     light := light_written d info Nps 0 (light data)\<rparr>)
      else Inl OutOfBounds)"
  using block_loop_from[of d 0 300 p3 info Nps data] by simp

lemma block_loop_fault: "3601 \<le> strlen d \<Longrightarrow> block_loop d p3 info Nps 0 0 0 data = Inl e \<Longrightarrow> e = OutOfBounds"
  by (simp add: block_loop_eq split: if_splits)

lemma ts_loop_eq:
  "0 \<le> j \<Longrightarrow> ts_loop Nps t0 f j a =
     (\<lambda>x. if Nps + j \<le> x \<and> x < Nps + GN_SAMPLES then t0 + real_of_int (x - Nps) / f else a x)"
proof (induction Nps t0 f j a rule: ts_loop.induct)
  case (1 Nps t0 f j a)
  show ?case
  proof (cases "j < GN_SAMPLES")
    case True
    have "ts_loop Nps t0 f j a = ts_loop Nps t0 f (j + 1) (a(Nps + j := t0 + real_of_int j / f))"
      using True by (subst ts_loop.simps) simp
    also have "\<dots> = (\<lambda>x. if Nps + (j + 1) \<le> x \<and> x < Nps + GN_SAMPLES then t0 + real_of_int (x - Nps) / f
        else (a(Nps + j := t0 + real_of_int j / f)) x)"
      by (rule "1.IH"[OF True]) (use "1.prems" in simp)
    also have "\<dots> = (\<lambda>x. if Nps + j \<le> x \<and> x < Nps + GN_SAMPLES then t0 + real_of_int (x - Nps) / f else a x)"
      using True by (auto simp: fun_eq_iff)
    finally show ?thesis .
  next
    case False
    have "ts_loop Nps t0 f j a = a" using False by (subst ts_loop.simps) simp
    moreover have "a = (\<lambda>x. if Nps + j \<le> x \<and> x < Nps + GN_SAMPLES then t0 + real_of_int (x - Nps) / f else a x)"
      using False by (auto simp: fun_eq_iff)
    ultimately show ?thesis by simp
  qed
qed

subsection \<open>Reading lines and numbers\<close>





lemma fgets_chars_line:
  "NL \<notin> set l \<Longrightarrow> length l < k \<Longrightarrow> fgets_chars k (l @ NL # rest) = (l @ [NL], rest)"
  by (induction l arbitrary: k) auto

lemma fgets_line:
  "NL \<notin> set l \<Longrightarrow> Suc (length l) < n \<Longrightarrow> fgets n (l @ NL # rest) = Some (l @ [NL], rest)"
  by (simp add: fgets_def fgets_chars_line)

lemma fgets_chars_length:
  "fgets_chars k s = (l, r) \<Longrightarrow> length l \<le> Suc (length (takeWhile (\<lambda>c. c \<noteq> NL) s))"
  by (induction k s arbitrary: l r rule: fgets_chars.induct) (auto split: if_splits prod.splits)

lemma strlen_store: "strlen (store b l) \<le> length l"
  by (simp add: strlen_def store_def cstr_def takeWhile_append length_takeWhile_le)

lemma READLINE_line:
  "NL \<notin> set l \<Longrightarrow> length l < 253 \<Longrightarrow> GN_READLINE (buff, l @ NL # rest) = (store buff (l @ [NL]), rest)"
  by (simp add: GN_READLINE_def fgets_line)


lemma get_timestamps_result:
  assumes "get_timestamps h gdi Nps time info data w = (e, data', w')"
  shows "e = GN_READ_E_NONE" "acc data' = acc data" "light data' = light data" "temp data' = temp data"
    "ts data' = (\<lambda>x. if Nps \<le> x \<and> x < Nps + GN_SAMPLES
                      then block_t0 h time + real_of_int (x - Nps) / fs info else ts data x)"
  using assms
  by (auto simp: get_timestamps_def Let_def ts_loop_eq block_t0_def split: prod.splits)

lemma acc_written_cong:
  "offset a = offset b \<Longrightarrow> gain a = gain b \<Longrightarrow> acc_written d a = acc_written d b"
  by (simp add: acc_written_def accel_value_def fun_eq_iff)

lemma light_written_cong:
  "lux a = lux b \<Longrightarrow> volts a = volts b \<Longrightarrow> light_written d a = light_written d b"
  by (simp add: light_written_def light_value_def fun_eq_iff)

lemma read_block_data_complete:
  assumes "fgets 3610 fp4 = Some (d, fp5)" "3601 \<le> strlen (store [] d)"
  shows "read_block_data h gdi ier Nps time p3 fp4 w info data =
     (if reads_in_p (store [] d) p3 0
      then (case get_timestamps h gdi Nps time info
                   (data\<lparr>acc := acc_written (store [] d) info Nps 0 (acc data),
                         light := light_written (store [] d) info Nps 0 (light data)\<rparr>) w of
              (e, data2, w1) \<Rightarrow> Inr (ier, fp5, w1, info, data2))
      else Inl OutOfBounds)"
  using assms by (simp add: read_block_data_def Let_def block_loop_eq)

lemma read_block_data_Inr:
  assumes "read_block_data h gdi ier Nps time p3 fp4 w info data = Inr (rc, fp', w', info', data')"
  shows "info' = info"
    and "fgets 3610 fp4 = None \<Longrightarrow> rc = GN_READ_E_BLOCK_DATA \<and> fp' = fp4 \<and> w' = w \<and> data' = data"
    and "fgets 3610 fp4 = Some (d, fp5) \<Longrightarrow> strlen (store [] d) < 3601 \<Longrightarrow>
           rc = GN_READ_E_BLOCK_DATA_3600 \<and> fp' = fp5 \<and> w' = w \<and> data' = data"
    and "fgets 3610 fp4 = Some (d, fp5) \<Longrightarrow> 3601 \<le> strlen (store [] d) \<Longrightarrow>
           rc = ier \<and> fp' = fp5 \<and> reads_in_p (store [] d) p3 0 \<and>
           acc data' = acc_written (store [] d) info Nps 0 (acc data) \<and>
           light data' = light_written (store [] d) info Nps 0 (light data) \<and>
           temp data' = temp data \<and>
           ts data' = (\<lambda>x. if Nps \<le> x \<and> x < Nps + GN_SAMPLES
                            then block_t0 h time + real_of_int (x - Nps) / fs info else ts data x)"
proof -
  show "info' = info"
    using assms
    by (auto simp: read_block_data_def Let_def split: option.splits prod.splits if_splits sum.splits)
  show "fgets 3610 fp4 = None \<Longrightarrow> rc = GN_READ_E_BLOCK_DATA \<and> fp' = fp4 \<and> w' = w \<and> data' = data"
    using assms by (simp add: read_block_data_def)
  show "fgets 3610 fp4 = Some (d, fp5) \<Longrightarrow> strlen (store [] d) < 3601 \<Longrightarrow>
           rc = GN_READ_E_BLOCK_DATA_3600 \<and> fp' = fp5 \<and> w' = w \<and> data' = data"
    using assms by (simp add: read_block_data_def Let_def)
  assume l: "fgets 3610 fp4 = Some (d, fp5)" and n: "3601 \<le> strlen (store [] d)"
  let ?d1 = "data\<lparr>acc := acc_written (store [] d) info Nps 0 (acc data),
                    light := light_written (store [] d) info Nps 0 (light data)\<rparr>"
  from assms have p: "reads_in_p (store [] d) p3 0"
    by (simp add: read_block_data_complete[OF l n] split: if_splits)
  obtain e d2 w2 where g: "get_timestamps h gdi Nps time info ?d1 w = (e, d2, w2)"
    by (cases "get_timestamps h gdi Nps time info ?d1 w") auto
  with assms p have r: "rc = ier" "fp' = fp5" "data' = d2"
    by (simp_all add: read_block_data_complete[OF l n])
  from get_timestamps_result[OF g] r p
  show "rc = ier \<and> fp' = fp5 \<and> reads_in_p (store [] d) p3 0 \<and>
           acc data' = acc_written (store [] d) info Nps 0 (acc data) \<and>
           light data' = light_written (store [] d) info Nps 0 (light data) \<and>
           temp data' = temp data \<and>
           ts data' = (\<lambda>x. if Nps \<le> x \<and> x < Nps + GN_SAMPLES
                            then block_t0 h time + real_of_int (x - Nps) / fs info else ts data x)"
    by (simp cong: if_cong)
qed

lemma read_block_data_cases:
  "read_block_data h gdi ier Nps time p3 fp4 w info data = Inl OutOfBounds \<or>
   (\<exists>rc fp' w' data'. read_block_data h gdi ier Nps time p3 fp4 w info data = Inr (rc, fp', w', info, data') \<and>
       (rc = ier \<or> rc = GN_READ_E_BLOCK_DATA \<or> rc = GN_READ_E_BLOCK_DATA_3600))"
proof (cases "fgets 3610 fp4")
  case None
  then show ?thesis by (simp add: read_block_data_def)
next
  case (Some a)
  then obtain d fp5 where l: "fgets 3610 fp4 = Some (d, fp5)" by (cases a) auto
  show ?thesis
  proof (cases "strlen (store [] d) < 3601")
    case True
    with l show ?thesis by (simp add: read_block_data_def Let_def)
  next
    case False
    then have n: "3601 \<le> strlen (store [] d)" by simp
    show ?thesis
      by (auto simp: read_block_data_complete[OF l n] split: prod.splits)
  qed
qed

lemma geneactiv_read_block_eq:
  assumes head: "block_head buff0 fp = Some (N, l, tv, f, fp4)"
    and lo: "INT_MIN \<le> N * GN_SAMPLES" and hi: "N * GN_SAMPLES + GN_SAMPLES \<le> INT_MAX"
  shows "geneactiv_read_block h gdi buff0 time0 p3 fp w info data =
     (if f \<noteq> fs info \<and> 1 \<le> fs_err info then
        Inr (GN_READ_E_BLOCK_FS, fp4, w, info\<lparr>max_n := max N (max_n info)\<rparr>,
             data\<lparr>temp := (\<lambda>x. if N * GN_SAMPLES \<le> x \<and> x < N * GN_SAMPLES + GN_SAMPLES then tv else temp data x)\<rparr>)
      else
        read_block_data h gdi (if f \<noteq> fs info then GN_READ_E_BLOCK_FS_WARN else GN_READ_E_NONE)
          (N * GN_SAMPLES) (store time0 l) p3 fp4 w
          (if f \<noteq> fs info then info\<lparr>max_n := max N (max_n info), fs_err := fs_err info + 1, fs := f\<rparr>
           else info\<lparr>max_n := max N (max_n info)\<rparr>)
          (data\<lparr>temp := (\<lambda>x. if N * GN_SAMPLES \<le> x \<and> x < N * GN_SAMPLES + GN_SAMPLES then tv else temp data x)\<rparr>))"
proof -
  have rng: "\<not> (N * GN_SAMPLES < LONG_MIN \<or> LONG_MAX < N * GN_SAMPLES)"
    "\<not> (N * GN_SAMPLES < INT_MIN \<or> INT_MAX < N * GN_SAMPLES)"
    using lo hi by (simp_all add: INT_MIN_def INT_MAX_def LONG_MIN_def LONG_MAX_def GN_SAMPLES_def)
  have mx: "(if N > max_n info then N else max_n info) = max N (max_n info)" by (simp add: max_def)
  from hi have tl: "temp_loop (N * GN_SAMPLES) (N * GN_SAMPLES + GN_SAMPLES) tv (temp data) =
      Inr (\<lambda>x. if N * GN_SAMPLES \<le> x \<and> x < N * GN_SAMPLES + GN_SAMPLES then tv else temp data x)"
    by (rule temp_loop_ok)
  from head obtain buff1 fp1 fp2 buff2 fp3 buff3 where
    r1: "GN_READLINE (GN_READLINE (GN_READLINE (buff0, fp))) = (buff1, fp1)" and
    t: "fgets 40 fp1 = Some (l, fp2)" and
    r2: "GN_READLINE (GN_READLINE (buff1, fp2)) = (buff2, fp3)" and
    r3: "GN_READLINE (GN_READLINE (GN_READLINE (buff2, fp3))) = (buff3, fp4)" and
    v: "strtol (cstr (drop 16 buff1)) 10 = N" "strtod (cstr (drop 12 buff2)) = tv"
       "strtod (cstr (drop 22 buff3)) = f"
    by (auto simp: block_head_def split: prod.splits option.splits)
  show ?thesis
    unfolding geneactiv_read_block_def
    by (simp add: r1 t r2 r3 v Let_def rng mx tl)
qed

lemma temp_loop_bound:
  "temp_loop i hi v a = Inr a' \<Longrightarrow> i \<le> INT_MAX \<Longrightarrow> i < hi \<Longrightarrow> hi \<le> INT_MAX"
proof (induction i hi v a rule: temp_loop.induct)
  case (1 i hi v a)
  from "1.prems" have ne: "i \<noteq> INT_MAX"
    by (subst (asm) temp_loop.simps) (simp split: if_splits)
  from "1.prems" ne have r: "temp_loop (i + 1) hi v (a(i := v)) = Inr a'"
    by (subst (asm) temp_loop.simps) simp
  show ?case
  proof (cases "i + 1 < hi")
    case True
    from "1.IH"[OF "1.prems"(3) ne r _ True] "1.prems"(2) ne show ?thesis by simp
  next
    case False
    with "1.prems"(2) ne show ?thesis by simp
  qed
qed

lemma geneactiv_read_block_range:
  assumes head: "block_head buff0 fp = Some (N, l, tv, f, fp4)"
    and ret: "geneactiv_read_block h gdi buff0 time0 p3 fp w info data = Inr r"
  shows "INT_MIN \<le> N * GN_SAMPLES \<and> N * GN_SAMPLES + GN_SAMPLES \<le> INT_MAX"
proof -
  from head obtain buff1 fp1 fp2 buff2 fp3 buff3 where
    r1: "GN_READLINE (GN_READLINE (GN_READLINE (buff0, fp))) = (buff1, fp1)" and
    t: "fgets 40 fp1 = Some (l, fp2)" and
    r2: "GN_READLINE (GN_READLINE (buff1, fp2)) = (buff2, fp3)" and
    r3: "GN_READLINE (GN_READLINE (GN_READLINE (buff2, fp3))) = (buff3, fp4)" and
    v: "strtol (cstr (drop 16 buff1)) 10 = N" "strtod (cstr (drop 12 buff2)) = tv"
       "strtod (cstr (drop 22 buff3)) = f"
    by (auto simp: block_head_def split: prod.splits option.splits)
  from ret have n: "\<not> (N * GN_SAMPLES < INT_MIN \<or> INT_MAX < N * GN_SAMPLES)"
    unfolding geneactiv_read_block_def
    by (simp add: r1 t r2 r3 v Let_def split: if_splits)
  from ret n obtain a where "temp_loop (N * GN_SAMPLES) (N * GN_SAMPLES + GN_SAMPLES) tv (temp data) = Inr a"
    unfolding geneactiv_read_block_def
    by (simp add: r1 t r2 r3 v Let_def split: if_splits sum.splits)
  from temp_loop_bound[OF this] n show ?thesis by (simp add: GN_SAMPLES_def)
qed

subsection \<open>A call of \<^verbatim>\<open>geneactiv_read_block\<close>, case by case\<close>

lemma decoded_has_line:
  assumes head: "block_head buff0 fp = Some (N, l, tv, f, fp4)"
    and ret: "geneactiv_read_block h gdi buff0 time0 p3 fp w info data = Inr (rc, fp', w', info', data')"
    and ok: "rc = GN_READ_E_NONE \<or> rc = GN_READ_E_BLOCK_FS_WARN"
  shows "\<exists>d fp5. fgets 3610 fp4 = Some (d, fp5)"
proof (cases "fgets 3610 fp4")
  case None
  note rg = geneactiv_read_block_range[OF head ret]
  from ret ok have "\<not> (f \<noteq> fs info \<and> 1 \<le> fs_err info)"
    by (auto simp: geneactiv_read_block_eq[OF head rg[THEN conjunct1] rg[THEN conjunct2]])
  with ret have "read_block_data h gdi (if f \<noteq> fs info then GN_READ_E_BLOCK_FS_WARN else GN_READ_E_NONE)
          (N * GN_SAMPLES) (store time0 l) p3 fp4 w
          (if f \<noteq> fs info then info\<lparr>max_n := max N (max_n info), fs_err := fs_err info + 1, fs := f\<rparr>
           else info\<lparr>max_n := max N (max_n info)\<rparr>)
          (data\<lparr>temp := (\<lambda>x. if N * GN_SAMPLES \<le> x \<and> x < N * GN_SAMPLES + GN_SAMPLES then tv else temp data x)\<rparr>)
      = Inr (rc, fp', w', info', data')"
    by (simp add: geneactiv_read_block_eq[OF head rg[THEN conjunct1] rg[THEN conjunct2]])
  from read_block_data_Inr(2)[OF this None] ok show ?thesis by auto
next
  case (Some a)
  then show ?thesis by (cases a) auto
qed

lemma decoded_block:
  assumes head: "block_head buff0 fp = Some (N, l, tv, f, fp4)"
    and line: "fgets 3610 fp4 = Some (d, fp5)"
    and ret: "geneactiv_read_block h gdi buff0 time0 p3 fp w info data = Inr (rc, fp', w', info', data')"
    and ok: "rc = GN_READ_E_NONE \<or> rc = GN_READ_E_BLOCK_FS_WARN"
  shows "3601 \<le> strlen (store [] d)"
    and "rc = (if f \<noteq> fs info then GN_READ_E_BLOCK_FS_WARN else GN_READ_E_NONE)"
    and "fp' = fp5"
    and "info' = (if f \<noteq> fs info then info\<lparr>max_n := max N (max_n info), fs_err := fs_err info + 1, fs := f\<rparr>
           else info\<lparr>max_n := max N (max_n info)\<rparr>)"
    and "fs info' = f"
    and "acc data' = acc_written (store [] d) info (N * GN_SAMPLES) 0 (acc data)"
    and "light data' = light_written (store [] d) info (N * GN_SAMPLES) 0 (light data)"
    and "temp data' = (\<lambda>x. if N * GN_SAMPLES \<le> x \<and> x < N * GN_SAMPLES + GN_SAMPLES then tv else temp data x)"
    and "ts data' = (\<lambda>x. if N * GN_SAMPLES \<le> x \<and> x < N * GN_SAMPLES + GN_SAMPLES
                       then block_t0 h (store time0 l) + real_of_int (x - N * GN_SAMPLES) / f else ts data x)"
    and "reads_in_p (store [] d) p3 0"
proof -
  note rg = geneactiv_read_block_range[OF head ret]
  note eq = geneactiv_read_block_eq[OF head rg[THEN conjunct1] rg[THEN conjunct2]]
  let ?ier = "if f \<noteq> fs info then GN_READ_E_BLOCK_FS_WARN else GN_READ_E_NONE"
  let ?info = "if f \<noteq> fs info then info\<lparr>max_n := max N (max_n info), fs_err := fs_err info + 1, fs := f\<rparr>
           else info\<lparr>max_n := max N (max_n info)\<rparr>"
  let ?data = "data\<lparr>temp := (\<lambda>x. if N * GN_SAMPLES \<le> x \<and> x < N * GN_SAMPLES + GN_SAMPLES then tv else temp data x)\<rparr>"
  from ret ok have nf: "\<not> (f \<noteq> fs info \<and> 1 \<le> fs_err info)"
    by (auto simp: eq)
  with ret have rd: "read_block_data h gdi ?ier (N * GN_SAMPLES) (store time0 l) p3 fp4 w ?info ?data
      = Inr (rc, fp', w', info', data')"
    by (simp add: eq)
  show len: "3601 \<le> strlen (store [] d)"
  proof (rule ccontr)
    assume "\<not> 3601 \<le> strlen (store [] d)"
    then have "strlen (store [] d) < 3601" by simp
    from read_block_data_Inr(3)[OF rd line this] ok show False by auto
  qed
  note r = read_block_data_Inr(4)[OF rd line len]
  show "rc = ?ier" using r by simp
  show "fp' = fp5" using r by simp
  show i: "info' = ?info" using read_block_data_Inr(1)[OF rd] .
  show "fs info' = f" using i by simp
  have "acc_written (store [] d) ?info = acc_written (store [] d) info"
    by (rule acc_written_cong) simp_all
  then show "acc data' = acc_written (store [] d) info (N * GN_SAMPLES) 0 (acc data)"
    using r by simp
  have "light_written (store [] d) ?info = light_written (store [] d) info"
    by (rule light_written_cong) simp_all
  then show "light data' = light_written (store [] d) info (N * GN_SAMPLES) 0 (light data)"
    using r by simp
  show "temp data' = (\<lambda>x. if N * GN_SAMPLES \<le> x \<and> x < N * GN_SAMPLES + GN_SAMPLES then tv else temp data x)"
    using r by simp
  have "fs ?info = f" by simp
  then show "ts data' = (\<lambda>x. if N * GN_SAMPLES \<le> x \<and> x < N * GN_SAMPLES + GN_SAMPLES
                       then block_t0 h (store time0 l) + real_of_int (x - N * GN_SAMPLES) / f else ts data x)"
    using r by (simp cong: if_cong)
  show "reads_in_p (store [] d) p3 0" using r by simp
qed

lemma block_decodes:
  assumes head: "block_head buff0 fp = Some (N, l, tv, f, fp4)"
    and line: "fgets 3610 fp4 = Some (d, fp5)"
    and len: "3601 \<le> strlen (store [] d)"
    and inp: "reads_in_p (store [] d) p3 0"
    and lo: "INT_MIN \<le> N * GN_SAMPLES" and hi: "N * GN_SAMPLES + GN_SAMPLES \<le> INT_MAX"
    and nf: "f = fs info \<or> fs_err info < 1"
  shows "\<exists>w' info' data'. geneactiv_read_block h gdi buff0 time0 p3 fp w info data =
           Inr (if f \<noteq> fs info then GN_READ_E_BLOCK_FS_WARN else GN_READ_E_NONE, fp5, w', info', data')"
proof -
  from nf have "\<not> (f \<noteq> fs info \<and> 1 \<le> fs_err info)" by auto
  then show ?thesis
    using inp
    by (auto simp: geneactiv_read_block_eq[OF head lo hi] read_block_data_complete[OF line len]
          split: prod.splits)
qed

lemma field_store:
  assumes "3601 \<le> strlen (store [] d)" "g < 300" "k < 4"
  shows "field (store [] d) g k = field d g k"
proof -
  have "strlen (store [] d) \<le> length d" by (rule strlen_store)
  with assms have "12 * g + 3 * k + 3 \<le> length d" by simp
  then show ?thesis by (simp add: field_def store_def)
qed

lemma acc_written_at:
  assumes "g < 300" "k < 3"
  shows "acc_written d info Nps 0 a (Nps * 3 + 3 * int g + int k) = accel_value info k (field d g k)"
proof -
  have "nat (Nps * 3 + 3 * int g + int k - Nps * 3) = 3 * g + k" by simp
  moreover have "(3 * g + k) div 3 = g" "(3 * g + k) mod 3 = k" using assms by simp_all
  ultimately show ?thesis using assms by (simp add: acc_written_def)
qed

lemma acc_written_outside:
  "x < Nps * 3 \<or> Nps * 3 + 900 \<le> x \<Longrightarrow> acc_written d info Nps 0 a x = a x"
  by (auto simp: acc_written_def)

lemma light_written_at:
  "g < 300 \<Longrightarrow> light_written d info Nps 0 a (Nps + int g) = light_value info (field d g 3)"
  by (simp add: light_written_def)

lemma light_written_outside:
  "x < Nps \<or> Nps + 300 \<le> x \<Longrightarrow> light_written d info Nps 0 a x = a x"
  by (auto simp: light_written_def)

lemma field_concat_replicate:
  "length p = 12 \<Longrightarrow> g < n \<Longrightarrow> k < 4 \<Longrightarrow> field (concat (replicate n p) @ rest) g k = take 3 (drop (3 * k) p)"
proof (induction g arbitrary: n)
  case 0
  then obtain m where "n = Suc m" by (cases n) auto
  with 0 show ?case by (simp add: field_def)
next
  case (Suc g)
  then obtain m where n: "n = Suc m" by (cases n) auto
  with Suc.prems have "g < m" by simp
  from Suc.IH[OF Suc.prems(1) this Suc.prems(3)] Suc.prems(1) n show ?case
    by (simp add: field_def)
qed

lemma strlen_store_eq: "NUL \<notin> set l \<Longrightarrow> strlen (store b l) = length l"
  by (simp add: strlen_def store_def cstr_def takeWhile_append)

lemma ex_line_props:
  "length ex_line = 3600" "NL \<notin> set ex_line" "NUL \<notin> set ex_line"
  by (auto simp: ex_line_def length_concat sum_list_replicate NL_def NUL_def)

lemma ex_line_fgets: "fgets 3610 (ex_line @ NL # rest) = Some (ex_line @ [NL], rest)"
  by (rule fgets_line) (simp_all add: ex_line_props)

lemma NUL_neq_NL: "NUL \<noteq> NL"
  by (simp add: NUL_def NL_def)

lemma ex_line_strlen: "strlen (store [] (ex_line @ [NL])) = 3601"
  by (subst strlen_store_eq) (simp_all add: ex_line_props NUL_neq_NL)

lemma ex_line_field: "g < 300 \<Longrightarrow> k < 4 \<Longrightarrow> field (ex_line @ [NL]) g k = take 3 (drop (3 * k) ''8007ff00103f'')"
  unfolding ex_line_def by (rule field_concat_replicate) simp_all

lemma ex_block_head_100:
  "block_head buff0 (ex_block ''100.0'' rest) = Some (2, ex_stamp, 43 / 2, 100, rest)"
  by (simp add: block_head_def ex_block_def ex_stamp_def GN_READLINE_def fgets_def store_def cstr_def
      strtol_def strtod_def skip_sign_def isspace_def isdigit_def digit_of_def exponent_of_def
      LONG_MAX_def NL_def NUL_def Let_def)

lemma ex_block_head_50:
  "block_head buff0 (ex_block ''50.0'' rest) = Some (2, ex_stamp, 43 / 2, 50, rest)"
  by (simp add: block_head_def ex_block_def ex_stamp_def GN_READLINE_def fgets_def store_def cstr_def
      strtol_def strtod_def skip_sign_def isspace_def isdigit_def digit_of_def exponent_of_def
      LONG_MAX_def NL_def NUL_def Let_def)

lemma ex_t0: "block_t0 ex_h (store time0 ex_stamp) = 3155673601 / 2"
  by (simp add: block_t0_def ex_h_def ex_stamp_def store_def cstr_def timegm_def days_from_civil_def
      strtol_def skip_sign_def isspace_def digit_of_def LONG_MAX_def NL_def NUL_def Let_def)

subsection \<open>The values of a decoded block\<close>









lemma decoded_light:
  assumes head: "block_head buff0 fp = Some (N, l, tv, f, fp4)"
    and line: "fgets 3610 fp4 = Some (d, fp5)"
    and ret: "geneactiv_read_block h gdi buff0 time0 p3 fp w info data = Inr (rc, fp', w', info', data')"
    and ok: "rc = GN_READ_E_NONE \<or> rc = GN_READ_E_BLOCK_FS_WARN"
    and g: "g < 300"
  shows "light data' (N * GN_SAMPLES + int g) = light_value info (field d g 3)"
proof -
  note db = decoded_block[OF head line ret ok]
  have "light data' (N * GN_SAMPLES + int g) = light_value info (field (store [] d) g 3)"
    by (simp add: db(7) light_written_at[OF g])
  also have "\<dots> = light_value info (field d g 3)"
    by (simp add: field_store[OF db(1) g])
  finally show ?thesis .
qed

lemma decoded_acc:
  assumes head: "block_head buff0 fp = Some (N, l, tv, f, fp4)"
    and line: "fgets 3610 fp4 = Some (d, fp5)"
    and ret: "geneactiv_read_block h gdi buff0 time0 p3 fp w info data = Inr (rc, fp', w', info', data')"
    and ok: "rc = GN_READ_E_NONE \<or> rc = GN_READ_E_BLOCK_FS_WARN"
    and g: "g < 300" and k: "k < 3"
  shows "acc data' (N * GN_SAMPLES * 3 + 3 * int g + int k) = accel_value info k (field d g k)"
proof -
  note db = decoded_block[OF head line ret ok]
  from k have k4: "k < 4" by simp
  have "acc data' (N * GN_SAMPLES * 3 + 3 * int g + int k) = accel_value info k (field (store [] d) g k)"
    by (simp add: db(6) acc_written_at[OF g k])
  also have "\<dots> = accel_value info k (field d g k)"
    by (simp add: field_store[OF db(1) g k4])
  finally show ?thesis .
qed

lemma decoded_in_p:
  assumes head: "block_head buff0 fp = Some (N, l, tv, f, fp4)"
    and line: "fgets 3610 fp4 = Some (d, fp5)"
    and ret: "geneactiv_read_block h gdi buff0 time0 p3 fp w info data = Inr (rc, fp', w', info', data')"
    and ok: "rc = GN_READ_E_NONE \<or> rc = GN_READ_E_BLOCK_FS_WARN"
    and g: "g < 300" and k: "k < 4"
  shows "strtol_stop (field d g k @ [p3]) 16 \<noteq> []"
    and "strtol (cstr (field d g k @ [p3])) 16 = strtol (field d g k) 16"
proof -
  note db = decoded_block[OF head line ret ok]
  from db(10) g k have "field_in_p (store [] d) p3 g k" by (simp add: reads_in_p_def)
  then show st: "strtol_stop (field d g k @ [p3]) 16 \<noteq> []"
    by (simp add: field_in_p_def field_store[OF db(1) g k])
  from field_in_line[OF db(1) g k] have "NUL \<notin> set (field d g k)"
    by (simp add: field_store[OF db(1) g k])
  from strtol_in_p[OF this st] show "strtol (cstr (field d g k @ [p3])) 16 = strtol (field d g k) 16" .
qed

lemma decoded_values:
  assumes head: "block_head buff0 fp = Some (N, l, tv, f, fp4)"
    and line: "fgets 3610 fp4 = Some (d, fp5)"
    and ret: "geneactiv_read_block h gdi buff0 time0 p3 fp w info data = Inr (rc, fp', w', info', data')"
    and ok: "rc = GN_READ_E_NONE \<or> rc = GN_READ_E_BLOCK_FS_WARN"
    and g: "g < 300"
  shows "light data' (N * GN_SAMPLES + int g) = light_value info (cstr (field d g 3 @ [p3])) \<and>
         light_value info (cstr (field d g 3 @ [p3])) = light_value info (field d g 3) \<and>
         (\<forall>k<3. acc data' (N * GN_SAMPLES * 3 + 3 * int g + int k) =
                    accel_value info k (cstr (field d g k @ [p3])) \<and>
                accel_value info k (cstr (field d g k @ [p3])) = accel_value info k (field d g k))"
proof -
  have l: "light_value info (cstr (field d g 3 @ [p3])) = light_value info (field d g 3)"
    using decoded_in_p(2)[OF head line ret ok g, of 3] by (simp add: light_value_def)
  have a: "accel_value info k (cstr (field d g k @ [p3])) = accel_value info k (field d g k)"
    if "k < 3" for k
    using decoded_in_p(2)[OF head line ret ok g, of k] that by (simp add: accel_value_def)
  from l a decoded_light[OF head line ret ok g] decoded_acc[OF head line ret ok g]
  show ?thesis by simp
qed


lemma ex_line_decodes:
  "\<exists>w' info' data'.
     geneactiv_read_block ex_h ex_indexing [] [] NUL (ex_block ''100.0'' (ex_line @ [NL])) ex_w ex_info ex_data
       = Inr (GN_READ_E_NONE, [], w', info', data')"
proof -
  have head: "block_head [] (ex_block ''100.0'' (ex_line @ [NL])) = Some (2, ex_stamp, 43 / 2, 100, ex_line @ [NL])"
    by (rule ex_block_head_100)
  have line: "fgets 3610 (ex_line @ [NL]) = Some (ex_line @ [NL], [])"
    using ex_line_fgets[of "[]"] by simp
  have "\<exists>w' info' data'. geneactiv_read_block ex_h ex_indexing [] [] NUL (ex_block ''100.0'' (ex_line @ [NL])) ex_w ex_info ex_data =
           Inr (if (100::real) \<noteq> fs ex_info then GN_READ_E_BLOCK_FS_WARN else GN_READ_E_NONE, [], w', info', data')"
    by (rule block_decodes[OF head line])
       (simp_all add: ex_line_strlen reads_in_p_NUL INT_MIN_def INT_MAX_def GN_SAMPLES_def ex_info_def)
  then show ?thesis by (simp add: ex_info_def)
qed

lemma ex_line_decodes_stopper:
  assumes "\<not> isspace c" "c \<noteq> CHR ''-''" "c \<noteq> CHR ''+''" "c \<noteq> CHR ''x''" "c \<noteq> CHR ''X''"
    "\<not> digit_in 16 c"
  shows "\<exists>w' info' data'.
     geneactiv_read_block ex_h ex_indexing [] [] c (ex_block ''100.0'' (ex_line @ [NL])) ex_w ex_info ex_data
       = Inr (GN_READ_E_NONE, [], w', info', data')"
proof -
  have head: "block_head [] (ex_block ''100.0'' (ex_line @ [NL])) = Some (2, ex_stamp, 43 / 2, 100, ex_line @ [NL])"
    by (rule ex_block_head_100)
  have line: "fgets 3610 (ex_line @ [NL]) = Some (ex_line @ [NL], [])"
    using ex_line_fgets[of "[]"] by simp
  have "\<exists>w' info' data'. geneactiv_read_block ex_h ex_indexing [] [] c (ex_block ''100.0'' (ex_line @ [NL])) ex_w ex_info ex_data =
           Inr (if (100::real) \<noteq> fs ex_info then GN_READ_E_BLOCK_FS_WARN else GN_READ_E_NONE, [], w', info', data')"
    by (rule block_decodes[OF head line])
       (simp_all add: ex_line_strlen reads_in_p_stopper[OF assms] INT_MIN_def INT_MAX_def GN_SAMPLES_def ex_info_def)
  then show ?thesis by (simp add: ex_info_def)
qed


lemma ex_stamp_fields:
  "GN_DATE_YEAR ex_h (store [] ex_stamp) = 2020" "GN_DATE_MONTH ex_h (store [] ex_stamp) = 1"
  "GN_DATE_DAY ex_h (store [] ex_stamp) = 1" "GN_DATE_HOUR ex_h (store [] ex_stamp) = 0"
  "GN_DATE_MIN ex_h (store [] ex_stamp) = 0" "GN_DATE_SEC ex_h (store [] ex_stamp) = 0"
  "GN_DATE_MSEC ex_h (store [] ex_stamp) = 500"
  by (simp_all add: ex_h_def ex_stamp_def store_def cstr_def
      strtol_def skip_sign_def isspace_def digit_of_def LONG_MAX_def NL_def NUL_def Let_def)

lemma timegm_2020: "timegm \<lparr>tm_year = 120, tm_mon = 0, tm_mday = 1, tm_hour = 0, tm_min = 0, tm_sec = 0\<rparr> = 1577836800"
  by (simp add: timegm_def days_from_civil_def Let_def)

lemma short_line:
  assumes "fp4 \<noteq> []" "length (takeWhile (\<lambda>c. c \<noteq> NL) fp4) < 3600"
  shows "\<exists>d fp5. fgets 3610 fp4 = Some (d, fp5) \<and> strlen (store [] d) < 3601"
proof -
  obtain d fp5 where c: "fgets_chars 3609 fp4 = (d, fp5)" by (cases "fgets_chars 3609 fp4") auto
  from fgets_chars_length[OF c] assms(2) have "length d \<le> 3600" by simp
  with strlen_store[of "[]" d] have "strlen (store [] d) < 3601" by simp
  with c assms(1) show ?thesis by (simp add: fgets_def)
qed

lemma ex_range: "INT_MIN \<le> 2 * GN_SAMPLES" "2 * GN_SAMPLES + GN_SAMPLES \<le> INT_MAX"
  by (simp_all add: INT_MIN_def INT_MAX_def GN_SAMPLES_def)

lemma geneactiv_read_block_keeps_rate:
  assumes ret: "geneactiv_read_block h gdi buff0 time0 p3 fp w info data = Inr (rc, fp', w', info', data')"
    and one: "1 \<le> fs_err info"
  shows "fs info' = fs info \<and> fs_err info' = fs_err info"
proof (cases "block_head buff0 fp")
  case None
  then have "fgets 40 (snd (GN_READLINE (GN_READLINE (GN_READLINE (buff0, fp))))) = None"
    by (auto simp: block_head_def split: prod.splits option.splits)
  with ret show ?thesis
    unfolding geneactiv_read_block_def
    by (auto simp: Let_def split: prod.splits if_splits)
next
  case (Some a)
  then obtain N l tv f fp4 where head: "block_head buff0 fp = Some (N, l, tv, f, fp4)"
    by (cases a) auto
  note rg = geneactiv_read_block_range[OF head ret]
  note eq = geneactiv_read_block_eq[OF head rg[THEN conjunct1] rg[THEN conjunct2], of h gdi time0 p3 w info data]
  show ?thesis
  proof (cases "f \<noteq> fs info")
    case True
    with ret one show ?thesis by (auto simp: eq)
  next
    case False
    with ret have "read_block_data h gdi GN_READ_E_NONE (N * GN_SAMPLES) (store time0 l) p3 fp4 w
        (info\<lparr>max_n := max N (max_n info)\<rparr>)
        (data\<lparr>temp := (\<lambda>x. if N * GN_SAMPLES \<le> x \<and> x < N * GN_SAMPLES + GN_SAMPLES then tv else temp data x)\<rparr>)
        = Inr (rc, fp', w', info', data')"
      by (simp add: eq)
    from read_block_data_Inr(1)[OF this] show ?thesis by simp
  qed
qed

lemma read_block_data_truncated:
  assumes "fp4 = [] \<or> length (takeWhile (\<lambda>c. c \<noteq> NL) fp4) < 3600"
  shows "\<exists>rc fp'. read_block_data h gdi ier Nps time p3 fp4 w info data = Inr (rc, fp', w, info, data) \<and>
            (rc = GN_READ_E_BLOCK_DATA \<or> rc = GN_READ_E_BLOCK_DATA_3600)"
proof (cases "fp4 = []")
  case True
  then show ?thesis by (simp add: read_block_data_def fgets_def)
next
  case False
  with assms short_line[OF False] obtain d fp5 where
    "fgets 3610 fp4 = Some (d, fp5)" "strlen (store [] d) < 3601" by blast
  then show ?thesis by (simp add: read_block_data_def Let_def)
qed

lemma ex_short_line: "length (takeWhile (\<lambda>c. c \<noteq> NL) (''8007ff00103f'' @ [NL])) < 3600"
  by (simp add: NL_def)






text \<open>The block of the examples when \<^verbatim>\<open>p[3]\<close> holds the character \<^verbatim>\<open>f\<close>: \<^verbatim>\<open>strtol\<close> reads
  \<^verbatim>\<open>800f\<close> and then the byte behind \<^verbatim>\<open>p\<close>. The C language does not say what the program
  does from there on.\<close>

lemma ex_line_overrun:
  "geneactiv_read_block ex_h ex_indexing [] [] (CHR ''f'') (ex_block ''100.0'' (ex_line @ [NL])) ex_w ex_info ex_data
     = Inl OutOfBounds"
proof -
  have head: "block_head [] (ex_block ''100.0'' (ex_line @ [NL])) = Some (2, ex_stamp, 43 / 2, 100, ex_line @ [NL])"
    by (rule ex_block_head_100)
  have line: "fgets 3610 (ex_line @ [NL]) = Some (ex_line @ [NL], [])"
    using ex_line_fgets[of "[]"] by simp
  have len: "3601 \<le> strlen (store [] (ex_line @ [NL]))" by (simp add: ex_line_strlen)
  have "field (store [] (ex_line @ [NL])) 0 0 = ''800''"
    by (simp add: field_store[OF len] ex_line_field)
  then have "\<not> field_in_p (store [] (ex_line @ [NL])) (CHR ''f'') 0 0"
    by (simp add: field_in_p_def strtol_stop_def skip_sign_def skip_0x_def isspace_def digit_in_def digit_of_def)
  then have n: "\<not> reads_in_p (store [] (ex_line @ [NL])) (CHR ''f'') 0"
    by (subst reads_in_p_step) simp_all
  have c: "\<not> ((100::real) \<noteq> fs ex_info \<and> 1 \<le> fs_err ex_info)" by (simp add: ex_info_def)
  show ?thesis
    using n c
    by (simp add: geneactiv_read_block_eq[OF head ex_range] read_block_data_complete[OF line len])
qed

subsection \<open>The header decoder on concrete streams\<close>

lemma replicate_19: "replicate 19 x = [x, x, x, x, x, x, x, x, x, x, x, x, x, x, x, x, x, x, x]"
  by (simp add: numeral_eq_Suc)

lemma replicate_27: "replicate 27 x = [x, x, x, x, x, x, x, x, x, x, x, x, x, x, x, x, x, x, x, x, x, x, x, x, x, x, x]"
  by (simp add: numeral_eq_Suc)

lemmas header_eval = geneactiv_read_header_def read_lines.simps gain_offset_loop.simps parseline_def
  GN_READLINE_def fgets_def store_def cstr_def strtol_def skip_sign_def isspace_def digit_of_def
  LONG_MAX_def LONG_MIN_def NL_def NUL_def Let_def text_lines_def ex_header_lines_def replicate_19 replicate_27

lemma fun_upd_2: "f(0 := a, Suc 0 := b, Suc (Suc 0) := c) = f(0 := a, 1 := b, 2 := c)"
  by (simp add: numeral_2_eq_2)

lemma ex_header_bad_volts:
  "geneactiv_read_header [] (text_lines (ex_header_lines ''Volts:abc'')) ex_info =
     Inr (GN_READ_E_NONE, [],
          ex_info\<lparr>fs := 100, gain := (gain ex_info)(0 := 25548, 1 := 25690, 2 := 25280),
                   offset := (offset ex_info)(0 := - 1430, 1 := - 1520, 2 := 40),
                   volts := 0, lux := 1000, npages := 12345\<rparr>)"
  by (simp add: header_eval ex_info_def fun_upd_2 del: One_nat_def)

lemma ex_header_58_lines:
  "geneactiv_read_header [] (text_lines (butlast (ex_header_lines ''Volts:300''))) ex_info =
     Inr (GN_READ_E_NONE, [],
          ex_info\<lparr>fs := 100, gain := (gain ex_info)(0 := 25548, 1 := 25690, 2 := 25280),
                   offset := (offset ex_info)(0 := - 1430, 1 := - 1520, 2 := 40),
                   volts := 300, lux := 1000, npages := 12345\<rparr>)"
  by (simp add: header_eval ex_info_def fun_upd_2 del: One_nat_def)

lemma ex_header_empty: "geneactiv_read_header [] [] ex_info = Inl NullPointer"
  by (simp add: header_eval)

lemma gain_offset_loop_fault:
  "gain_offset_loop i j st info = Inl e \<Longrightarrow> e = NullPointer"
proof (induction i j st info rule: gain_offset_loop.induct)
  case (1 i j st info)
  from "1.prems" show ?case
    by (subst (asm) gain_offset_loop.simps)
       (auto split: if_splits prod.splits option.splits dest: "1.IH")
qed

lemma ex_header_good:
  "geneactiv_read_header [] (text_lines (ex_header_lines ''Volts:300'')) ex_info =
     Inr (GN_READ_E_NONE, [],
          ex_info\<lparr>fs := 100, gain := (gain ex_info)(0 := 25548, 1 := 25690, 2 := 25280),
                   offset := (offset ex_info)(0 := - 1430, 1 := - 1520, 2 := 40),
                   volts := 300, lux := 1000, npages := 12345\<rparr>)"
  by (simp add: header_eval ex_info_def fun_upd_2 del: One_nat_def)

lemma ex_header_58_length: "length (butlast (ex_header_lines ''Volts:300'')) = 58"
  by (simp add: ex_header_lines_def)

subsection \<open>The header decoder on a header whose first 53 lines are present\<close>

lemma text_lines_Cons: "text_lines (l # ls) @ rest = l @ NL # (text_lines ls @ rest)"
  by (simp add: text_lines_def)

lemma text_lines_append: "text_lines (x @ y) = text_lines x @ text_lines y"
  by (simp add: text_lines_def)

lemma cstr_store_line: "NUL \<notin> set l \<Longrightarrow> cstr (store buff (l @ [NL])) = l @ [NL]"
  using NUL_neq_NL by (simp add: cstr_def store_def takeWhile_append)

lemma READLINE_header_line:
  "header_line l \<Longrightarrow> \<exists>buff'. GN_READLINE (buff, l @ NL # rest) = (buff', rest)"
  by (simp add: GN_READLINE_def header_line_def fgets_line)

lemma read_lines_skip:
  "length ls = n - i \<Longrightarrow> i \<le> n \<Longrightarrow> \<forall>l\<in>set ls. header_line l \<Longrightarrow>
   \<exists>buff'. read_lines i n (buff, text_lines ls @ rest) = (buff', rest)"
proof (induction ls arbitrary: i buff)
  case Nil
  then have "i = n" by simp
  then show ?case by (subst read_lines.simps) (simp add: text_lines_def)
next
  case (Cons l ls)
  then have i: "i < n" by auto
  from Cons.prems have hl: "header_line l" by simp
  from READLINE_header_line[OF hl] obtain b1 where
    r: "GN_READLINE (buff, l @ NL # (text_lines ls @ rest)) = (b1, text_lines ls @ rest)" by blast
  from Cons.prems i have "\<exists>buff'. read_lines (i + 1) n (b1, text_lines ls @ rest) = (buff', rest)"
    by (intro Cons.IH) auto
  with i r show ?case by (subst read_lines.simps) (simp add: text_lines_Cons)
qed

lemma length_takeWhile_lt: "x \<in> set xs \<Longrightarrow> \<not> P x \<Longrightarrow> length (takeWhile P xs) < length xs"
  by (induction xs) auto

lemma two_tokens:
  fixes s :: string
  defines "a \<equiv> length (takeWhile (\<lambda>c. c = CHR '':'') s)"
  defines "e \<equiv> a + length (takeWhile (\<lambda>c. c \<noteq> CHR '':'') (drop a s))"
  assumes ne: "s \<noteq> []" and la: "last s \<noteq> CHR '':''"
    and colon: "CHR '':'' \<in> set (dropWhile (\<lambda>c. c = CHR '':'') s)"
  shows "drop a s \<noteq> []" and "e \<noteq> length s"
    and "drop (length (takeWhile (\<lambda>c. c = CHR '':'') (drop (e + 1) s))) (drop (e + 1) s) \<noteq> []"
proof -
  let ?C = "\<lambda>c. c = CHR '':''" and ?N = "\<lambda>c. c \<noteq> CHR '':''"
  define p where "p = drop a s"
  have p: "p = dropWhile ?C s" unfolding p_def a_def by (simp only: dropWhile_eq_drop)
  from colon have pc: "CHR '':'' \<in> set p" by (simp only: p)
  then show c1: "drop a s \<noteq> []" unfolding p_def by auto
  define k where "k = takeWhile ?N p"
  have e: "e = a + length k" unfolding e_def k_def p_def ..
  from pc have lk: "length k < length p" unfolding k_def by (rule length_takeWhile_lt) simp
  have al: "a \<le> length s" unfolding a_def by (rule length_takeWhile_le)
  have lp: "length p = length s - a" unfolding p_def by simp
  from lk lp al have el: "e < length s" unfolding e by linarith
  then show "e \<noteq> length s" by simp
  have "p ! length k = CHR '':''"
    using lk nth_length_takeWhile[of ?N p] unfolding k_def by auto
  moreover have "p ! length k = s ! e" unfolding p_def e using el e by (simp add: add.commute)
  ultimately have se: "s ! e = CHR '':''" by simp
  from ne have "s ! (length s - 1) = last s" by (simp add: last_conv_nth)
  with se la have "e \<noteq> length s - 1" by auto
  with el have e1: "e + 1 < length s" by simp
  define q where "q = drop (e + 1) s"
  from e1 have qn: "q \<noteq> []" unfolding q_def by simp
  from e1 have "last q = last s" unfolding q_def by (simp add: last_drop)
  with la have "\<not> ?C (last q)" by simp
  with last_in_set[OF qn] have "\<not> (\<forall>x\<in>set q. ?C x)" by blast
  then have "dropWhile ?C q \<noteq> []" by (simp only: dropWhile_eq_Nil_conv) simp
  then show "drop (length (takeWhile ?C (drop (e + 1) s))) (drop (e + 1) s) \<noteq> []"
    unfolding q_def dropWhile_eq_drop .
qed

lemma parseline_value:
  assumes hl: "header_line l" and hv: "has_value l"
  shows "\<exists>k v buff'. parseline (buff, l @ NL # rest) 255 = ((k, Some v), buff', rest)"
proof -
  let ?C = "\<lambda>c. c = CHR '':''"
  define s where "s = l @ [NL]"
  have nl: "NL \<noteq> CHR '':''" by (simp add: NL_def)
  from hl have fg: "fgets 255 (l @ NL # rest) = Some (s, rest)"
    by (simp add: header_line_def fgets_line s_def)
  from hl have cs: "cstr (store buff s) = s" by (simp add: header_line_def cstr_store_line s_def)
  have ne: "s \<noteq> []" and la: "last s \<noteq> CHR '':''" using nl by (simp_all add: s_def)
  from hv have "dropWhile ?C l \<noteq> []" unfolding has_value_def
    by (auto simp del: dropWhile_eq_Nil_conv)
  then obtain x where x: "x \<in> set l" "\<not> ?C x" unfolding dropWhile_eq_Nil_conv by blast
  have "dropWhile ?C s = dropWhile ?C l @ [NL]"
    unfolding s_def using x by (rule dropWhile_append1)
  with hv have colon: "CHR '':'' \<in> set (dropWhile ?C s)" unfolding has_value_def by simp
  note t = two_tokens[OF ne la colon]
  show ?thesis
    using t
    by (simp only: parseline_def fg cs Let_def prod.case option.case if_False) simp
qed

lemma gain_offset_pair:
  assumes "header_line l1" "has_value l1" "header_line l2" "has_value l2" "i < 54"
    and "i2 = i + 2" "j2 = j + 1"
  shows "\<exists>buff' info'. gain_offset_loop i j (buff, l1 @ NL # l2 @ NL # rest) info =
           gain_offset_loop i2 j2 (buff', rest) info'"
proof -
  from parseline_value[OF assms(1,2)] obtain k1 v1 b1 where
    p1: "parseline (buff, l1 @ NL # l2 @ NL # rest) 255 = ((k1, Some v1), b1, l2 @ NL # rest)" by blast
  from parseline_value[OF assms(3,4)] obtain k2 v2 b2 where
    p2: "parseline (b1, l2 @ NL # rest) 255 = ((k2, Some v2), b2, rest)" by blast
  show ?thesis
    using assms(5) unfolding assms(6,7)
    by (subst gain_offset_loop.simps) (simp add: p1 p2 Let_def, blast)
qed

lemma gain_offset_loop_ok:
  assumes "length c = 6" "\<forall>l\<in>set c. header_line l \<and> has_value l"
  shows "\<exists>buff' info'. gain_offset_loop 48 0 (buff, text_lines c @ rest) info = Inr ((buff', rest), info')"
proof -
  from assms(1) obtain l1 l2 l3 l4 l5 l6 where c: "c = [l1, l2, l3, l4, l5, l6]"
    by (auto simp: length_Suc_conv numeral_eq_Suc)
  with assms(2) have h: "header_line l1" "has_value l1" "header_line l2" "has_value l2"
    "header_line l3" "has_value l3" "header_line l4" "has_value l4"
    "header_line l5" "has_value l5" "header_line l6" "has_value l6"
    by simp_all
  have t: "text_lines c @ rest = l1 @ NL # l2 @ NL # l3 @ NL # l4 @ NL # l5 @ NL # l6 @ NL # rest"
    by (simp add: c text_lines_def)
  have "\<exists>buff' info'. gain_offset_loop 48 0 (buff, l1 @ NL # l2 @ NL # l3 @ NL # l4 @ NL # l5 @ NL # l6 @ NL # rest) info =
           gain_offset_loop 50 1 (buff', l3 @ NL # l4 @ NL # l5 @ NL # l6 @ NL # rest) info'"
    by (rule gain_offset_pair[OF h(1-4)]) simp_all
  then obtain b1 i1 where
    s1: "gain_offset_loop 48 0 (buff, text_lines c @ rest) info =
         gain_offset_loop 50 1 (b1, l3 @ NL # l4 @ NL # l5 @ NL # l6 @ NL # rest) i1"
    unfolding t by blast
  have "\<exists>buff' info'. gain_offset_loop 50 1 (b1, l3 @ NL # l4 @ NL # l5 @ NL # l6 @ NL # rest) i1 =
           gain_offset_loop 52 2 (buff', l5 @ NL # l6 @ NL # rest) info'"
    by (rule gain_offset_pair[OF h(5-8)]) simp_all
  then obtain b2 i2 where
    s2: "gain_offset_loop 50 1 (b1, l3 @ NL # l4 @ NL # l5 @ NL # l6 @ NL # rest) i1 =
         gain_offset_loop 52 2 (b2, l5 @ NL # l6 @ NL # rest) i2"
    by blast
  have "\<exists>buff' info'. gain_offset_loop 52 2 (b2, l5 @ NL # l6 @ NL # rest) i2 =
           gain_offset_loop 54 3 (buff', rest) info'"
    by (rule gain_offset_pair[OF h(9-12)]) simp_all
  then obtain b3 i3 where
    s3: "gain_offset_loop 52 2 (b2, l5 @ NL # l6 @ NL # rest) i2 = gain_offset_loop 54 3 (b3, rest) i3"
    by blast
  have "gain_offset_loop 54 3 (b3, rest) i3 = Inr ((b3, rest), i3)"
    by (subst gain_offset_loop.simps) simp
  with s1 s2 s3 show ?thesis by (simp only:) blast
qed

lemma header_tail:
  "\<exists>fp' info'.
     (case GN_READLINE st2 of
        (buff3, fp3) \<Rightarrow>
          let info3 = info2\<lparr>volts := real_of_int (strtol (cstr (drop 6 buff3)) 10)\<rparr>
          in case GN_READLINE (buff3, fp3) of
               (buff4, fp4) \<Rightarrow>
                 let info4 = info3\<lparr>lux := real_of_int (strtol (cstr (drop 4 buff4)) 10)\<rparr>
                 in case read_lines 56 59 (buff4, fp4) of
                      (buff5, fp5) \<Rightarrow>
                        let info5 = info4\<lparr>npages := strtol (cstr (drop 16 buff5)) 10\<rparr>
                        in case GN_READLINE (buff5, fp5) of
                             (buff6, fp6) \<Rightarrow> Inr (GN_READ_E_NONE, fp6, info5))
     = (Inr (GN_READ_E_NONE, fp', info') :: c_fault + (GN_Read_Err \<times> FILE \<times> GN_Info_t))"
  by (auto simp: Let_def split: prod.splits)

lemma header_decodes:
  assumes la: "length a = 19" and lb: "length b = 27" and lc: "length c = 6"
    and hl: "\<forall>l\<in>set (a @ l20 # b @ c). header_line l"
    and hv: "\<forall>l\<in>set (l20 # c). has_value l"
  shows "\<exists>fp' info'. geneactiv_read_header buff0 (text_lines (a @ l20 # b @ c) @ rest) info =
           Inr (GN_READ_E_NONE, fp', info')"
proof -
  let ?r3 = "text_lines c @ rest"
  let ?r2 = "text_lines b @ ?r3"
  let ?r1 = "l20 @ NL # ?r2"
  have t: "text_lines (a @ l20 # b @ c) @ rest = text_lines a @ ?r1"
    by (simp add: text_lines_def)
  from hl have ha: "\<forall>l\<in>set a. header_line l" and hb: "\<forall>l\<in>set b. header_line l"
    and h20: "header_line l20" and hc: "\<forall>l\<in>set c. header_line l \<and> has_value l"
    using hv by auto
  from hv have v20: "has_value l20" by simp
  from read_lines_skip[of a 20 1, OF _ _ ha] la obtain b1 where
    r1: "read_lines 1 20 (buff0, text_lines a @ ?r1) = (b1, ?r1)" by auto
  from parseline_value[OF h20 v20] obtain k v b2 where
    p: "parseline (b1, ?r1) 255 = ((k, Some v), b2, ?r2)" by blast
  from read_lines_skip[of b 48 21, OF _ _ hb] lb obtain b3 where
    r2: "read_lines 21 48 (b2, ?r2) = (b3, ?r3)" by auto
  from gain_offset_loop_ok[OF lc hc] obtain b4 i4 where
    g: "gain_offset_loop 48 0 (b3, ?r3) (info\<lparr>fs := real_of_int (strtol v 10)\<rparr>) = Inr ((b4, rest), i4)"
    by blast
  from header_tail[where ?st2.0="(b4, rest)" and ?info2.0=i4] show ?thesis
    unfolding geneactiv_read_header_def t r1 p
    by (simp only: prod.case option.case Let_def r2 g sum.case)
qed

subsection \<open>\<^verbatim>\<open>roll_median\<close> on a sequence that is not empty\<close>

lemma length_gsl_movstat_median_padzero [simp]: "length (gsl_movstat_median_padzero K x) = length x"
  by (simp add: gsl_movstat_median_padzero_def Let_def)

lemma median_loop_from:
  assumes "length d = n * stride" "length out = n * stride" "i \<le> n" "m = n - i"
  shows "median_loop K stride i n (i * stride) (i * stride) d out =
           take (i * stride) out @
           concat (map (\<lambda>j. gsl_movstat_median_padzero K (take stride (drop (j * stride) d))) [i..<n])"
  using assms
proof (induction m arbitrary: i out)
  case 0
  then have "i = n" by simp
  with 0 show ?case by (subst median_loop.simps) simp
next
  case (Suc m)
  then have i: "i < n" and m: "m = n - Suc i" by simp_all
  let ?y = "gsl_movstat_median_padzero K (take stride (drop (i * stride) d))"
  let ?out = "write_at out (i * stride) ?y"
  from i have le: "i * stride + stride \<le> n * stride"
    by (metis Suc_leI mult_Suc mult_le_mono1 add.commute)
  with Suc.prems(1) have ly: "length ?y = stride" by simp
  from le Suc.prems(2) ly have lo: "length ?out = n * stride"
    by (simp add: write_at_def)
  from le Suc.prems(2) have lp: "length (take (i * stride) out) = i * stride" by simp
  have "take (i * stride + stride) (take (i * stride) out @ ?y @ drop (i * stride + length ?y) out) =
      take (i * stride) out @ ?y"
    using lp ly by simp
  then have tk: "take (Suc i * stride) ?out = take (i * stride) out @ ?y"
    by (simp add: write_at_def add.commute)
  have "median_loop K stride i n (i * stride) (i * stride) d out =
      median_loop K stride (Suc i) n (Suc i * stride) (Suc i * stride) d ?out"
    using i by (subst median_loop.simps) (simp add: add.commute)
  also have "\<dots> = take (Suc i * stride) ?out @
      concat (map (\<lambda>j. gsl_movstat_median_padzero K (take stride (drop (j * stride) d))) [Suc i..<n])"
    using i m by (intro Suc.IH[OF Suc.prems(1) lo]) simp_all
  also have "\<dots> = take (i * stride) out @
      concat (map (\<lambda>j. gsl_movstat_median_padzero K (take stride (drop (j * stride) d))) [i..<n])"
    using i by (simp only: tk) (simp add: upt_conv_Cons)
  finally show ?case .
qed

lemma prod_list_last: "ds \<noteq> [] \<Longrightarrow> prod_list ds = prod_list (butlast ds) * last (ds :: nat list)"
  by (induction ds) (auto simp: mult.assoc)

lemma roll_median_nonempty:
  assumes "dims x \<noteq> []" "0 < last (dims x)" "length (elems x) = prod_list (dims x)"
    "length rmean0 = prod_list (dims x)" "0 \<le> wlen" "int (prod_list (butlast (dims x))) \<le> INT_MAX"
  shows "roll_median rmean0 x wlen =
           Inr (Some \<lparr>dims = dims x,
                      elems = concat (map (\<lambda>j. gsl_movstat_median_padzero (nat wlen)
                                                  (take (last (dims x)) (drop (j * last (dims x)) (elems x))))
                                          [0..<prod_list (butlast (dims x))])\<rparr>)"
proof -
  let ?s = "last (dims x)" and ?n = "prod_list (butlast (dims x))"
  from prod_list_last[OF assms(1)] have p: "prod_list (dims x) = ?n * ?s" .
  with assms(2) have n: "prod_list (dims x) div ?s = ?n" by simp
  from median_loop_from[of "elems x" ?n ?s rmean0 0 ?n "nat wlen"] assms(3,4) p
  have "median_loop (nat wlen) ?s 0 ?n 0 0 (elems x) rmean0 =
      concat (map (\<lambda>j. gsl_movstat_median_padzero (nat wlen) (take ?s (drop (j * ?s) (elems x)))) [0..<?n])"
    by simp
  with assms(1,2,5,6) n show ?thesis
    by (simp add: roll_median_def Let_def)
qed


section \<open>The claims\<close>

text \<open>In the theorems below \<open>block_head buff0 fp = Some (N, l, tv, f, fp4)\<close> says that the
  block at the front of the stream has the sequence number \<open>N\<close>, the clock-stamp line \<open>l\<close>,
  the temperature \<open>tv\<close> and the declared sampling rate \<open>f\<close>, and that its data line starts
  at \<open>fp4\<close>; \<open>fgets 3610 fp4 = Some (d, fp5)\<close> names the data line \<open>d\<close>. A block is decoded
  when the call returns \<^verbatim>\<open>GN_READ_E_NONE\<close> or \<^verbatim>\<open>GN_READ_E_BLOCK_FS_WARN\<close>.

  The theorems hold for every byte \<open>p3\<close> in \<^verbatim>\<open>p[3]\<close>. When \<open>p3\<close> does not stop \<^verbatim>\<open>strtol\<close> behind
  a field (a hexadecimal digit behind a field of digits), \<^verbatim>\<open>strtol\<close> reads past the array
  \<^verbatim>\<open>p\<close>: the behaviour of the call is then undefined in C, a compiled program may return
  with other values in the arrays, and the theorems say nothing of such a call, whose
  result here is \<open>Inl OutOfBounds\<close> (lemma \<open>ex_line_overrun\<close>). In every other call \<^verbatim>\<open>strtol\<close>
  reads from \<^verbatim>\<open>p\<close> the number that the three characters of the field give (lemma
  \<open>decoded_in_p\<close>), and a byte \<open>p3\<close> that continues no number, NUL among them, makes every
  call such a call (lemmas \<open>reads_in_p_stopper\<close> and \<open>ex_line_decodes_stopper\<close>).\<close>








text \<open>C7: a decoded block with sequence number \<open>N\<close> is written at sample offset
  \<open>N * GN_SAMPLES\<close>: the temperature of the block fills the \<open>GN_SAMPLES\<close> temperature
  slots from there, the time stamps and light values stand at the same offsets, the
  acceleration of group \<open>g\<close> and axis \<open>k\<close> at element \<open>N * GN_SAMPLES * 3 + 3 * g + k\<close>, and
  nothing outside these ranges changes. The value at each offset is the one computed from
  what \<^verbatim>\<open>strtol\<close> reads in the array \<^verbatim>\<open>p\<close>, the field followed by the byte \<open>p3\<close>, and that is
  the value of the three characters of the field.\<close>

theorem C7_block_offsets:
  assumes head: "block_head buff0 fp = Some (N, l, tv, f, fp4)"
    and line: "fgets 3610 fp4 = Some (d, fp5)"
    and ret: "geneactiv_read_block h gdi buff0 time0 p3 fp w info data = Inr (rc, fp', w', info', data')"
    and ok: "rc = GN_READ_E_NONE \<or> rc = GN_READ_E_BLOCK_FS_WARN"
  shows "(\<forall>j. 0 \<le> j \<and> j < GN_SAMPLES \<longrightarrow>
            temp data' (N * GN_SAMPLES + j) = tv \<and>
            ts data' (N * GN_SAMPLES + j) = block_t0 h (store time0 l) + real_of_int j / fs info')
       \<and> (\<forall>g<300. light data' (N * GN_SAMPLES + int g) = light_value info (cstr (field d g 3 @ [p3])) \<and>
            light_value info (cstr (field d g 3 @ [p3])) = light_value info (field d g 3) \<and>
            (\<forall>k<3. acc data' (N * GN_SAMPLES * 3 + 3 * int g + int k) =
                       accel_value info k (cstr (field d g k @ [p3])) \<and>
                   accel_value info k (cstr (field d g k @ [p3])) = accel_value info k (field d g k)))
       \<and> (\<forall>x. x < N * GN_SAMPLES \<or> N * GN_SAMPLES + GN_SAMPLES \<le> x \<longrightarrow>
            temp data' x = temp data x \<and> light data' x = light data x \<and> ts data' x = ts data x)
       \<and> (\<forall>x. x < N * GN_SAMPLES * 3 \<or> N * GN_SAMPLES * 3 + GN_SAMPLES * 3 \<le> x \<longrightarrow>
            acc data' x = acc data x)"
proof -
  note db = decoded_block[OF head line ret ok]
  have a: "temp data' (N * GN_SAMPLES + j) = tv \<and>
      ts data' (N * GN_SAMPLES + j) = block_t0 h (store time0 l) + real_of_int j / fs info'"
    if "0 \<le> j \<and> j < GN_SAMPLES" for j
    using that by (simp add: db(8) db(9) db(5))
  have b: "light data' (N * GN_SAMPLES + int g) = light_value info (cstr (field d g 3 @ [p3])) \<and>
            light_value info (cstr (field d g 3 @ [p3])) = light_value info (field d g 3) \<and>
            (\<forall>k<3. acc data' (N * GN_SAMPLES * 3 + 3 * int g + int k) =
                       accel_value info k (cstr (field d g k @ [p3])) \<and>
                   accel_value info k (cstr (field d g k @ [p3])) = accel_value info k (field d g k))"
    if "g < 300" for g
    by (rule decoded_values[OF head line ret ok that])
  have c: "temp data' x = temp data x \<and> light data' x = light data x \<and> ts data' x = ts data x"
    if "x < N * GN_SAMPLES \<or> N * GN_SAMPLES + GN_SAMPLES \<le> x" for x
  proof -
    from that have "x < N * GN_SAMPLES \<or> N * GN_SAMPLES + 300 \<le> x" by (simp add: GN_SAMPLES_def)
    from light_written_outside[OF this] have "light data' x = light data x" by (simp add: db(7))
    moreover from that have "temp data' x = temp data x" "ts data' x = ts data x"
      by (auto simp: db(8) db(9))
    ultimately show ?thesis by simp
  qed
  have e: "acc data' x = acc data x"
    if "x < N * GN_SAMPLES * 3 \<or> N * GN_SAMPLES * 3 + GN_SAMPLES * 3 \<le> x" for x
  proof -
    from that have "x < N * GN_SAMPLES * 3 \<or> N * GN_SAMPLES * 3 + 900 \<le> x" by (simp add: GN_SAMPLES_def)
    from acc_written_outside[OF this] show ?thesis by (simp add: db(6))
  qed
  from a b c e show ?thesis by blast
qed

text \<open>The block of the examples: sequence number 2, so samples 600 to 899.\<close>

theorem C7_block_offsets_witness:
  "\<exists>rc fp' w' info' data'.
     geneactiv_read_block ex_h ex_indexing [] [] NUL (ex_block ''100.0'' (ex_line @ [NL])) ex_w ex_info ex_data
       = Inr (rc, fp', w', info', data') \<and>
     rc = GN_READ_E_NONE \<and>
     temp data' 600 = 43 / 2 \<and> temp data' 899 = 43 / 2 \<and>
     temp data' 599 = temp ex_data 599 \<and> temp data' 900 = temp ex_data 900 \<and>
     ts data' 600 = 3155673601 / 2 \<and>
     light data' 600 = light_value ex_info ''03f'' \<and>
     acc data' 1802 = accel_value ex_info 2 ''001'' \<and>
     acc data' 1799 = acc ex_data 1799 \<and> acc data' 2700 = acc ex_data 2700"
proof -
  have head: "block_head [] (ex_block ''100.0'' (ex_line @ [NL])) = Some (2, ex_stamp, 43 / 2, 100, ex_line @ [NL])"
    by (rule ex_block_head_100)
  have line: "fgets 3610 (ex_line @ [NL]) = Some (ex_line @ [NL], [])"
    using ex_line_fgets[of "[]"] by simp
  from ex_line_decodes obtain w' info' data' where
    ret: "geneactiv_read_block ex_h ex_indexing [] [] NUL (ex_block ''100.0'' (ex_line @ [NL])) ex_w ex_info ex_data =
           Inr (GN_READ_E_NONE, [], w', info', data')"
    by blast
  have ok: "GN_READ_E_NONE = GN_READ_E_NONE \<or> GN_READ_E_NONE = GN_READ_E_BLOCK_FS_WARN" by simp
  note t = C7_block_offsets[OF head line ret ok]
  from t have t1: "\<forall>j. 0 \<le> j \<and> j < GN_SAMPLES \<longrightarrow>
            temp data' (2 * GN_SAMPLES + j) = 43 / 2 \<and>
            ts data' (2 * GN_SAMPLES + j) = block_t0 ex_h (store [] ex_stamp) + real_of_int j / fs info'"
    by (rule conjunct1)
  from t have t2: "\<forall>g<300. light data' (2 * GN_SAMPLES + int g) =
                light_value ex_info (cstr (field (ex_line @ [NL]) g 3 @ [NUL])) \<and>
            light_value ex_info (cstr (field (ex_line @ [NL]) g 3 @ [NUL])) =
                light_value ex_info (field (ex_line @ [NL]) g 3) \<and>
            (\<forall>k<3. acc data' (2 * GN_SAMPLES * 3 + 3 * int g + int k) =
                       accel_value ex_info k (cstr (field (ex_line @ [NL]) g k @ [NUL])) \<and>
                   accel_value ex_info k (cstr (field (ex_line @ [NL]) g k @ [NUL])) =
                       accel_value ex_info k (field (ex_line @ [NL]) g k))"
    by (rule conjunct2[THEN conjunct1])
  from t have t3: "\<forall>x. x < 2 * GN_SAMPLES \<or> 2 * GN_SAMPLES + GN_SAMPLES \<le> x \<longrightarrow>
            temp data' x = temp ex_data x \<and> light data' x = light ex_data x \<and> ts data' x = ts ex_data x"
    by (rule conjunct2[THEN conjunct2, THEN conjunct1])
  from t have t4: "\<forall>x. x < 2 * GN_SAMPLES * 3 \<or> 2 * GN_SAMPLES * 3 + GN_SAMPLES * 3 \<le> x \<longrightarrow>
            acc data' x = acc ex_data x"
    by (rule conjunct2[THEN conjunct2, THEN conjunct2])
  from t1[rule_format, of 0] have a1: "temp data' 600 = 43 / 2" and a5: "ts data' 600 = 3155673601 / 2"
    by (simp_all add: GN_SAMPLES_def ex_t0)
  from t1[rule_format, of 299] have a2: "temp data' 899 = 43 / 2"
    by (simp add: GN_SAMPLES_def)
  from t3[rule_format, of 599] have a3: "temp data' 599 = temp ex_data 599"
    by (simp add: GN_SAMPLES_def)
  from t3[rule_format, of 900] have a4: "temp data' 900 = temp ex_data 900"
    by (simp add: GN_SAMPLES_def)
  from t2[rule_format, of 0] have a6: "light data' 600 = light_value ex_info ''03f''"
    by (simp add: GN_SAMPLES_def ex_line_field)
  from t2[rule_format, of 0] have "\<forall>k<3. acc data' (2 * GN_SAMPLES * 3 + 3 * int 0 + int k) =
                       accel_value ex_info k (cstr (field (ex_line @ [NL]) 0 k @ [NUL])) \<and>
                   accel_value ex_info k (cstr (field (ex_line @ [NL]) 0 k @ [NUL])) =
                       accel_value ex_info k (field (ex_line @ [NL]) 0 k)"
    by simp
  from this[rule_format, of 2] have a7: "acc data' 1802 = accel_value ex_info 2 ''001''"
    by (simp add: GN_SAMPLES_def ex_line_field)
  from t4[rule_format, of 1799] have a8: "acc data' 1799 = acc ex_data 1799"
    by (simp add: GN_SAMPLES_def)
  from t4[rule_format, of 2700] have a9: "acc data' 2700 = acc ex_data 2700"
    by (simp add: GN_SAMPLES_def)
  show ?thesis
    apply (intro exI conjI)
              apply (rule ret)
             apply (rule refl)
            apply (rule a1)
           apply (rule a2)
          apply (rule a3)
         apply (rule a4)
        apply (rule a5)
       apply (rule a6)
      apply (rule a7)
     apply (rule a8)
    apply (rule a9)
    done
qed

text \<open>C5: in a decoded block the time stamp of sample \<open>j\<close> is \<^verbatim>\<open>timegm\<close> of the calendar
  fields of the clock stamp, plus the millisecond field over 1000, plus \<open>j\<close> over the
  sampling rate in force after the call; with a positive rate the time stamps of the block
  increase strictly and any two of them differ by their distance in samples over the
  rate.\<close>

theorem C5_timestamps:
  assumes head: "block_head buff0 fp = Some (N, l, tv, f, fp4)"
    and ret: "geneactiv_read_block h gdi buff0 time0 p3 fp w info data = Inr (rc, fp', w', info', data')"
    and ok: "rc = GN_READ_E_NONE \<or> rc = GN_READ_E_BLOCK_FS_WARN"
    and time: "time = store time0 l"
  shows "(\<forall>j. 0 \<le> j \<and> j < GN_SAMPLES \<longrightarrow>
            ts data' (N * GN_SAMPLES + j) =
              real_of_int (timegm \<lparr>tm_year = GN_DATE_YEAR h time - 1900, tm_mon = GN_DATE_MONTH h time - 1,
                                   tm_mday = GN_DATE_DAY h time, tm_hour = GN_DATE_HOUR h time,
                                   tm_min = GN_DATE_MIN h time, tm_sec = GN_DATE_SEC h time\<rparr>)
              + real_of_int (GN_DATE_MSEC h time) / 1000
              + real_of_int j / fs info')
       \<and> (0 < fs info' \<longrightarrow>
            (\<forall>i j. 0 \<le> i \<and> i < j \<and> j < GN_SAMPLES \<longrightarrow>
               ts data' (N * GN_SAMPLES + i) < ts data' (N * GN_SAMPLES + j) \<and>
               ts data' (N * GN_SAMPLES + j) - ts data' (N * GN_SAMPLES + i) = real_of_int (j - i) * (1 / fs info')))"
proof -
  from decoded_has_line[OF head ret ok] obtain d fp5 where line: "fgets 3610 fp4 = Some (d, fp5)"
    by blast
  note db = decoded_block[OF head line ret ok]
  have t0: "block_t0 h time =
      real_of_int (timegm \<lparr>tm_year = GN_DATE_YEAR h time - 1900, tm_mon = GN_DATE_MONTH h time - 1,
                                   tm_mday = GN_DATE_DAY h time, tm_hour = GN_DATE_HOUR h time,
                                   tm_min = GN_DATE_MIN h time, tm_sec = GN_DATE_SEC h time\<rparr>)
              + real_of_int (GN_DATE_MSEC h time) / 1000"
    by (simp add: block_t0_def)
  have at: "ts data' (N * GN_SAMPLES + j) = block_t0 h time + real_of_int j / fs info'"
    if "0 \<le> j \<and> j < GN_SAMPLES" for j
    using that by (simp add: db(9) db(5) time)
  have a: "ts data' (N * GN_SAMPLES + j) =
              real_of_int (timegm \<lparr>tm_year = GN_DATE_YEAR h time - 1900, tm_mon = GN_DATE_MONTH h time - 1,
                                   tm_mday = GN_DATE_DAY h time, tm_hour = GN_DATE_HOUR h time,
                                   tm_min = GN_DATE_MIN h time, tm_sec = GN_DATE_SEC h time\<rparr>)
              + real_of_int (GN_DATE_MSEC h time) / 1000
              + real_of_int j / fs info'"
    if "0 \<le> j \<and> j < GN_SAMPLES" for j
    using at[OF that] by (simp only: t0)
  have b: "ts data' (N * GN_SAMPLES + i) < ts data' (N * GN_SAMPLES + j) \<and>
               ts data' (N * GN_SAMPLES + j) - ts data' (N * GN_SAMPLES + i) = real_of_int (j - i) * (1 / fs info')"
    if pos: "0 < fs info'" and ij: "0 \<le> i \<and> i < j \<and> j < GN_SAMPLES" for i j
  proof -
    from ij have i: "0 \<le> i \<and> i < GN_SAMPLES" and j: "0 \<le> j \<and> j < GN_SAMPLES" by auto
    have "real_of_int i / fs info' < real_of_int j / fs info'"
      using pos ij by (simp add: divide_strict_right_mono)
    moreover have "real_of_int j / fs info' - real_of_int i / fs info' = real_of_int (j - i) * (1 / fs info')"
      by (simp add: diff_divide_distrib)
    ultimately show ?thesis by (simp add: at[OF i] at[OF j])
  qed
  from a b show ?thesis by blast
qed

text \<open>The block of the examples, stamped 2020-01-01 00:00:00:500 at 100 Hz.\<close>

theorem C5_timestamps_witness:
  "\<exists>rc fp' w' info' data'.
     geneactiv_read_block ex_h ex_indexing [] [] NUL (ex_block ''100.0'' (ex_line @ [NL])) ex_w ex_info ex_data
       = Inr (rc, fp', w', info', data') \<and>
     rc = GN_READ_E_NONE \<and> 0 < fs info' \<and>
     ts data' (2 * GN_SAMPLES + 0) = real_of_int 1577836800 + real_of_int 500 / 1000 + real_of_int 0 / fs info' \<and>
     ts data' (2 * GN_SAMPLES + 7) < ts data' (2 * GN_SAMPLES + 8) \<and>
     ts data' (2 * GN_SAMPLES + 8) - ts data' (2 * GN_SAMPLES + 7) = real_of_int (8 - 7) * (1 / fs info')"
proof -
  have head: "block_head [] (ex_block ''100.0'' (ex_line @ [NL])) = Some (2, ex_stamp, 43 / 2, 100, ex_line @ [NL])"
    by (rule ex_block_head_100)
  have line: "fgets 3610 (ex_line @ [NL]) = Some (ex_line @ [NL], [])"
    using ex_line_fgets[of "[]"] by simp
  from ex_line_decodes obtain w' info' data' where
    ret: "geneactiv_read_block ex_h ex_indexing [] [] NUL (ex_block ''100.0'' (ex_line @ [NL])) ex_w ex_info ex_data =
           Inr (GN_READ_E_NONE, [], w', info', data')"
    by blast
  have ok: "GN_READ_E_NONE = GN_READ_E_NONE \<or> GN_READ_E_NONE = GN_READ_E_BLOCK_FS_WARN" by simp
  have "fs info' = 100" by (rule decoded_block(5)[OF head line ret ok])
  then have pos: "0 < fs info'" by simp
  note t = C5_timestamps[OF head ret ok refl]
  from t have t1: "\<forall>j. 0 \<le> j \<and> j < GN_SAMPLES \<longrightarrow>
            ts data' (2 * GN_SAMPLES + j) =
              real_of_int (timegm \<lparr>tm_year = GN_DATE_YEAR ex_h (store [] ex_stamp) - 1900,
                                   tm_mon = GN_DATE_MONTH ex_h (store [] ex_stamp) - 1,
                                   tm_mday = GN_DATE_DAY ex_h (store [] ex_stamp),
                                   tm_hour = GN_DATE_HOUR ex_h (store [] ex_stamp),
                                   tm_min = GN_DATE_MIN ex_h (store [] ex_stamp),
                                   tm_sec = GN_DATE_SEC ex_h (store [] ex_stamp)\<rparr>)
              + real_of_int (GN_DATE_MSEC ex_h (store [] ex_stamp)) / 1000
              + real_of_int j / fs info'"
    by (rule conjunct1)
  from t pos have t2: "\<forall>i j. 0 \<le> i \<and> i < j \<and> j < GN_SAMPLES \<longrightarrow>
               ts data' (2 * GN_SAMPLES + i) < ts data' (2 * GN_SAMPLES + j) \<and>
               ts data' (2 * GN_SAMPLES + j) - ts data' (2 * GN_SAMPLES + i) = real_of_int (j - i) * (1 / fs info')"
    by blast
  have s: "(0::int) \<le> 0 \<and> (0::int) < GN_SAMPLES" by (simp add: GN_SAMPLES_def)
  from t1[rule_format, OF s]
  have a1: "ts data' (2 * GN_SAMPLES + 0) = real_of_int 1577836800 + real_of_int 500 / 1000 + real_of_int 0 / fs info'"
    by (simp only: ex_stamp_fields timegm_2020) (simp add: timegm_2020)
  have s2: "(0::int) \<le> 7 \<and> (7::int) < 8 \<and> (8::int) < GN_SAMPLES" by (simp add: GN_SAMPLES_def)
  note a2 = t2[rule_format, OF s2]
  show ?thesis
    apply (intro exI conjI)
         apply (rule ret)
        apply (rule refl)
       apply (rule pos)
      apply (rule a1)
     apply (rule a2[THEN conjunct1])
    apply (rule a2[THEN conjunct2])
    done
qed

text \<open>C2: a block whose earlier lines are present declares a rate \<open>f\<close> that differs from the
  header's. With the counter at 0, every return of the call leaves the counter at 1 and the
  header's rate set to \<open>f\<close> (the call fails to return only when \<^verbatim>\<open>strtol\<close> reads past \<^verbatim>\<open>p\<close>);
  and when the data line is complete and \<^verbatim>\<open>strtol\<close> stops within \<^verbatim>\<open>p\<close> at every field, the
  call returns the warning and the block is decoded: its values are those of its fields and
  its time stamps are spaced by the new rate. With the counter at 1 or more the call
  returns \<^verbatim>\<open>GN_READ_E_BLOCK_FS\<close> with the data line unread and the sample arrays as they
  were, but for the temperature slots of the block.\<close>

theorem C2_rate_mismatch:
  assumes head: "block_head buff0 fp = Some (N, l, tv, f, fp4)"
    and lo: "INT_MIN \<le> N * GN_SAMPLES" and hi: "N * GN_SAMPLES + GN_SAMPLES \<le> INT_MAX"
    and mism: "f \<noteq> fs info"
  shows "(fs_err info = 0 \<longrightarrow>
           (geneactiv_read_block h gdi buff0 time0 p3 fp w info data = Inl OutOfBounds \<or>
            (\<exists>rc fp' w' info' data'.
               geneactiv_read_block h gdi buff0 time0 p3 fp w info data = Inr (rc, fp', w', info', data') \<and>
               fs_err info' = 1 \<and> fs info' = f)) \<and>
           (\<forall>d fp5. fgets 3610 fp4 = Some (d, fp5) \<and> 3601 \<le> strlen (store [] d) \<and>
                     reads_in_p (store [] d) p3 0 \<longrightarrow>
              (\<exists>w' info' data'.
                 geneactiv_read_block h gdi buff0 time0 p3 fp w info data =
                   Inr (GN_READ_E_BLOCK_FS_WARN, fp5, w', info', data') \<and>
                 fs_err info' = 1 \<and> fs info' = f \<and>
                 (\<forall>g<300. light data' (N * GN_SAMPLES + int g) = light_value info (cstr (field d g 3 @ [p3])) \<and>
                    light_value info (cstr (field d g 3 @ [p3])) = light_value info (field d g 3) \<and>
                    (\<forall>k<3. acc data' (N * GN_SAMPLES * 3 + 3 * int g + int k) =
                               accel_value info k (cstr (field d g k @ [p3])) \<and>
                           accel_value info k (cstr (field d g k @ [p3])) = accel_value info k (field d g k))) \<and>
                 (\<forall>j. 0 \<le> j \<and> j < GN_SAMPLES \<longrightarrow>
                    ts data' (N * GN_SAMPLES + j) = block_t0 h (store time0 l) + real_of_int j / f))))
       \<and> (1 \<le> fs_err info \<longrightarrow>
            geneactiv_read_block h gdi buff0 time0 p3 fp w info data =
              Inr (GN_READ_E_BLOCK_FS, fp4, w, info\<lparr>max_n := max N (max_n info)\<rparr>,
                   data\<lparr>temp := (\<lambda>x. if N * GN_SAMPLES \<le> x \<and> x < N * GN_SAMPLES + GN_SAMPLES
                                        then tv else temp data x)\<rparr>))"
proof -
  note eq = geneactiv_read_block_eq[OF head lo hi, of h gdi time0 p3 w info data]
  let ?info1 = "info\<lparr>max_n := max N (max_n info), fs_err := fs_err info + 1, fs := f\<rparr>"
  let ?data1 = "data\<lparr>temp := (\<lambda>x. if N * GN_SAMPLES \<le> x \<and> x < N * GN_SAMPLES + GN_SAMPLES
                                        then tv else temp data x)\<rparr>"
  have second: "geneactiv_read_block h gdi buff0 time0 p3 fp w info data =
              Inr (GN_READ_E_BLOCK_FS, fp4, w, info\<lparr>max_n := max N (max_n info)\<rparr>, ?data1)"
    if "1 \<le> fs_err info"
    using that mism by (simp add: eq)
  have any: "geneactiv_read_block h gdi buff0 time0 p3 fp w info data = Inl OutOfBounds \<or>
            (\<exists>rc fp' w' info' data'.
               geneactiv_read_block h gdi buff0 time0 p3 fp w info data = Inr (rc, fp', w', info', data') \<and>
               fs_err info' = 1 \<and> fs info' = f)"
    if z: "fs_err info = 0"
  proof -
    from z mism have c: "geneactiv_read_block h gdi buff0 time0 p3 fp w info data =
        read_block_data h gdi GN_READ_E_BLOCK_FS_WARN (N * GN_SAMPLES) (store time0 l) p3 fp4 w ?info1 ?data1"
      by (simp add: eq)
    from z have i: "fs_err ?info1 = 1" "fs ?info1 = f" by simp_all
    from read_block_data_cases[of h gdi GN_READ_E_BLOCK_FS_WARN "N * GN_SAMPLES" "store time0 l" p3 fp4 w ?info1 ?data1]
    show ?thesis unfolding c using i by blast
  qed
  have dec: "\<exists>w' info' data'.
                 geneactiv_read_block h gdi buff0 time0 p3 fp w info data =
                   Inr (GN_READ_E_BLOCK_FS_WARN, fp5, w', info', data') \<and>
                 fs_err info' = 1 \<and> fs info' = f \<and>
                 (\<forall>g<300. light data' (N * GN_SAMPLES + int g) = light_value info (cstr (field d g 3 @ [p3])) \<and>
                    light_value info (cstr (field d g 3 @ [p3])) = light_value info (field d g 3) \<and>
                    (\<forall>k<3. acc data' (N * GN_SAMPLES * 3 + 3 * int g + int k) =
                               accel_value info k (cstr (field d g k @ [p3])) \<and>
                           accel_value info k (cstr (field d g k @ [p3])) = accel_value info k (field d g k))) \<and>
                 (\<forall>j. 0 \<le> j \<and> j < GN_SAMPLES \<longrightarrow>
                    ts data' (N * GN_SAMPLES + j) = block_t0 h (store time0 l) + real_of_int j / f)"
    if z: "fs_err info = 0"
      and ln: "fgets 3610 fp4 = Some (d, fp5) \<and> 3601 \<le> strlen (store [] d) \<and> reads_in_p (store [] d) p3 0"
    for d fp5
  proof -
    from ln have line: "fgets 3610 fp4 = Some (d, fp5)" and len: "3601 \<le> strlen (store [] d)"
      and inp: "reads_in_p (store [] d) p3 0" by auto
    from z have nf: "f = fs info \<or> fs_err info < 1" by simp
    from block_decodes[OF head line len inp lo hi nf, of h gdi time0 w data] mism
    obtain w' info' data' where
      ret: "geneactiv_read_block h gdi buff0 time0 p3 fp w info data =
              Inr (GN_READ_E_BLOCK_FS_WARN, fp5, w', info', data')"
      by auto
    have ok: "GN_READ_E_BLOCK_FS_WARN = GN_READ_E_NONE \<or> GN_READ_E_BLOCK_FS_WARN = GN_READ_E_BLOCK_FS_WARN"
      by simp
    note db = decoded_block[OF head line ret ok]
    from db(4) mism z have i: "fs_err info' = 1" "fs info' = f" by simp_all
    have t: "ts data' (N * GN_SAMPLES + j) = block_t0 h (store time0 l) + real_of_int j / f"
      if "0 \<le> j \<and> j < GN_SAMPLES" for j
      using that by (simp add: db(9))
    from ret i t decoded_values[OF head line ret ok] show ?thesis
      by blast
  qed
  from any dec second show ?thesis by blast
qed

text \<open>The block of the examples declaring 50 Hz under a header of 100 Hz, first with the
  counter at 0, then with the counter at 1.\<close>

theorem C2_rate_mismatch_witness:
  "fs_err ex_info = 0 \<and> reads_in_p (store [] (ex_line @ [NL])) NUL 0 \<and>
   (\<exists>w' info' data'.
      geneactiv_read_block ex_h ex_indexing [] [] NUL (ex_block ''50.0'' (ex_line @ [NL])) ex_w ex_info ex_data
        = Inr (GN_READ_E_BLOCK_FS_WARN, [], w', info', data') \<and>
      fs_err info' = 1 \<and> fs info' = 50 \<and>
      acc data' (2 * GN_SAMPLES * 3 + 3 * int 0 + int 0) = accel_value ex_info 0 (field (ex_line @ [NL]) 0 0) \<and>
      ts data' (2 * GN_SAMPLES + 1) = block_t0 ex_h (store [] ex_stamp) + real_of_int 1 / 50)
   \<and> geneactiv_read_block ex_h ex_indexing [] [] NUL (ex_block ''50.0'' (ex_line @ [NL])) ex_w
        (ex_info\<lparr>fs_err := 1\<rparr>) ex_data
      = Inr (GN_READ_E_BLOCK_FS, ex_line @ [NL], ex_w,
             ex_info\<lparr>fs_err := 1, max_n := max 2 (max_n (ex_info\<lparr>fs_err := 1\<rparr>))\<rparr>,
             ex_data\<lparr>temp := (\<lambda>x. if 2 * GN_SAMPLES \<le> x \<and> x < 2 * GN_SAMPLES + GN_SAMPLES
                                   then 43 / 2 else temp ex_data x)\<rparr>)"
proof -
  have head: "block_head [] (ex_block ''50.0'' (ex_line @ [NL])) = Some (2, ex_stamp, 43 / 2, 50, ex_line @ [NL])"
    by (rule ex_block_head_50)
  have inp: "reads_in_p (store [] (ex_line @ [NL])) NUL 0" by (rule reads_in_p_NUL)
  have line: "fgets 3610 (ex_line @ [NL]) = Some (ex_line @ [NL], []) \<and> 3601 \<le> strlen (store [] (ex_line @ [NL]))
      \<and> reads_in_p (store [] (ex_line @ [NL])) NUL 0"
    using ex_line_fgets[of "[]"] inp by (simp add: ex_line_strlen)
  have m0: "(50::real) \<noteq> fs ex_info" and z: "fs_err ex_info = 0" by (simp_all add: ex_info_def)
  have m1: "(50::real) \<noteq> fs (ex_info\<lparr>fs_err := 1\<rparr>)" and o: "1 \<le> fs_err (ex_info\<lparr>fs_err := 1\<rparr>)"
    by (simp_all add: ex_info_def)
  note t0 = C2_rate_mismatch[OF head ex_range m0, of ex_h ex_indexing "[]" NUL ex_w ex_data]
  from t0 z have "\<forall>d fp5. fgets 3610 (ex_line @ [NL]) = Some (d, fp5) \<and> 3601 \<le> strlen (store [] d) \<and>
                     reads_in_p (store [] d) NUL 0 \<longrightarrow>
              (\<exists>w' info' data'.
                 geneactiv_read_block ex_h ex_indexing [] [] NUL (ex_block ''50.0'' (ex_line @ [NL])) ex_w ex_info ex_data =
                   Inr (GN_READ_E_BLOCK_FS_WARN, fp5, w', info', data') \<and>
                 fs_err info' = 1 \<and> fs info' = 50 \<and>
                 (\<forall>g<300. light data' (2 * GN_SAMPLES + int g) = light_value ex_info (cstr (field d g 3 @ [NUL])) \<and>
                    light_value ex_info (cstr (field d g 3 @ [NUL])) = light_value ex_info (field d g 3) \<and>
                    (\<forall>k<3. acc data' (2 * GN_SAMPLES * 3 + 3 * int g + int k) =
                               accel_value ex_info k (cstr (field d g k @ [NUL])) \<and>
                           accel_value ex_info k (cstr (field d g k @ [NUL])) = accel_value ex_info k (field d g k))) \<and>
                 (\<forall>j. 0 \<le> j \<and> j < GN_SAMPLES \<longrightarrow>
                    ts data' (2 * GN_SAMPLES + j) = block_t0 ex_h (store [] ex_stamp) + real_of_int j / 50))"
    by blast
  from this[rule_format, OF line] obtain w' info' data' where
    ret: "geneactiv_read_block ex_h ex_indexing [] [] NUL (ex_block ''50.0'' (ex_line @ [NL])) ex_w ex_info ex_data
        = Inr (GN_READ_E_BLOCK_FS_WARN, [], w', info', data')"
    and e: "fs_err info' = 1" and f: "fs info' = 50"
    and d2: "\<forall>g<300. light data' (2 * GN_SAMPLES + int g) =
                        light_value ex_info (cstr (field (ex_line @ [NL]) g 3 @ [NUL])) \<and>
                    light_value ex_info (cstr (field (ex_line @ [NL]) g 3 @ [NUL])) =
                        light_value ex_info (field (ex_line @ [NL]) g 3) \<and>
                    (\<forall>k<3. acc data' (2 * GN_SAMPLES * 3 + 3 * int g + int k) =
                               accel_value ex_info k (cstr (field (ex_line @ [NL]) g k @ [NUL])) \<and>
                           accel_value ex_info k (cstr (field (ex_line @ [NL]) g k @ [NUL])) =
                               accel_value ex_info k (field (ex_line @ [NL]) g k))"
    and d3: "\<forall>j. 0 \<le> j \<and> j < GN_SAMPLES \<longrightarrow>
                    ts data' (2 * GN_SAMPLES + j) = block_t0 ex_h (store [] ex_stamp) + real_of_int j / 50"
    by blast
  have "(0::nat) < 300" by simp
  from d2[rule_format, OF this] have "\<forall>k<3. acc data' (2 * GN_SAMPLES * 3 + 3 * int 0 + int k) =
                               accel_value ex_info k (cstr (field (ex_line @ [NL]) 0 k @ [NUL])) \<and>
                           accel_value ex_info k (cstr (field (ex_line @ [NL]) 0 k @ [NUL])) =
                               accel_value ex_info k (field (ex_line @ [NL]) 0 k)"
    by (rule conjunct2[THEN conjunct2])
  moreover have "(0::nat) < 3" by simp
  ultimately have "acc data' (2 * GN_SAMPLES * 3 + 3 * int 0 + int 0) =
        accel_value ex_info 0 (cstr (field (ex_line @ [NL]) 0 0 @ [NUL])) \<and>
      accel_value ex_info 0 (cstr (field (ex_line @ [NL]) 0 0 @ [NUL])) =
        accel_value ex_info 0 (field (ex_line @ [NL]) 0 0)"
    by blast
  then have a: "acc data' (2 * GN_SAMPLES * 3 + 3 * int 0 + int 0) = accel_value ex_info 0 (field (ex_line @ [NL]) 0 0)"
    by simp
  have "(0::int) \<le> 1 \<and> (1::int) < GN_SAMPLES" by (simp add: GN_SAMPLES_def)
  from d3[rule_format, OF this]
  have t: "ts data' (2 * GN_SAMPLES + 1) = block_t0 ex_h (store [] ex_stamp) + real_of_int 1 / 50" .
  have first: "\<exists>w' info' data'.
      geneactiv_read_block ex_h ex_indexing [] [] NUL (ex_block ''50.0'' (ex_line @ [NL])) ex_w ex_info ex_data
        = Inr (GN_READ_E_BLOCK_FS_WARN, [], w', info', data') \<and>
      fs_err info' = 1 \<and> fs info' = 50 \<and>
      acc data' (2 * GN_SAMPLES * 3 + 3 * int 0 + int 0) = accel_value ex_info 0 (field (ex_line @ [NL]) 0 0) \<and>
      ts data' (2 * GN_SAMPLES + 1) = block_t0 ex_h (store [] ex_stamp) + real_of_int 1 / 50"
    apply (intro exI conjI)
        apply (rule ret)
       apply (rule e)
      apply (rule f)
     apply (rule a)
    apply (rule t)
    done
  from C2_rate_mismatch[OF head ex_range m1, of ex_h ex_indexing "[]" NUL ex_w ex_data] o
  have second: "geneactiv_read_block ex_h ex_indexing [] [] NUL (ex_block ''50.0'' (ex_line @ [NL])) ex_w
        (ex_info\<lparr>fs_err := 1\<rparr>) ex_data
      = Inr (GN_READ_E_BLOCK_FS, ex_line @ [NL], ex_w,
             ex_info\<lparr>fs_err := 1, max_n := max 2 (max_n (ex_info\<lparr>fs_err := 1\<rparr>))\<rparr>,
             ex_data\<lparr>temp := (\<lambda>x. if 2 * GN_SAMPLES \<le> x \<and> x < 2 * GN_SAMPLES + GN_SAMPLES
                                   then 43 / 2 else temp ex_data x)\<rparr>)"
    by blast
  from z inp first second show ?thesis by (intro conjI)
qed

text \<open>C9: a first call meets a mismatch with the counter at 0 and returns; the header then holds
  the block's rate \<open>f1\<close> and the counter 1. A later block declaring \<open>f2\<close> is compared with
  \<open>f1\<close>: when \<open>f2\<close> differs from \<open>f1\<close>, and so when \<open>f2\<close> is the original header rate, the
  call returns \<^verbatim>\<open>GN_READ_E_BLOCK_FS\<close>; when \<open>f2\<close> is \<open>f1\<close> the rate is accepted: unless
  \<^verbatim>\<open>strtol\<close> reads past \<^verbatim>\<open>p\<close> in the data line, the call returns, with neither that code nor
  the warning, and rate and counter stay as they are (so the same holds for every block
  after it, by \<open>geneactiv_read_block_keeps_rate\<close>).\<close>

theorem C9_corrected_rate_is_compared:
  assumes head1: "block_head buffA fpA = Some (N1, l1, tv1, f1, fp4A)"
    and mism: "f1 \<noteq> fs info" and first: "fs_err info = 0"
    and ret1: "geneactiv_read_block h gdi buffA timeA pA fpA w info data = Inr (rc1, fp1, w1, info1, data1)"
    and head2: "block_head buffB fpB = Some (N2, l2, tv2, f2, fp4B)"
    and lo2: "INT_MIN \<le> N2 * GN_SAMPLES" and hi2: "N2 * GN_SAMPLES + GN_SAMPLES \<le> INT_MAX"
  shows "fs info1 = f1 \<and> fs_err info1 = 1
       \<and> (f2 \<noteq> f1 \<longrightarrow>
            geneactiv_read_block h gdi buffB timeB pB fpB w1 info1 data1 =
              Inr (GN_READ_E_BLOCK_FS, fp4B, w1, info1\<lparr>max_n := max N2 (max_n info1)\<rparr>,
                   data1\<lparr>temp := (\<lambda>x. if N2 * GN_SAMPLES \<le> x \<and> x < N2 * GN_SAMPLES + GN_SAMPLES
                                          then tv2 else temp data1 x)\<rparr>))
       \<and> (f2 = fs info \<longrightarrow>
            geneactiv_read_block h gdi buffB timeB pB fpB w1 info1 data1 =
              Inr (GN_READ_E_BLOCK_FS, fp4B, w1, info1\<lparr>max_n := max N2 (max_n info1)\<rparr>,
                   data1\<lparr>temp := (\<lambda>x. if N2 * GN_SAMPLES \<le> x \<and> x < N2 * GN_SAMPLES + GN_SAMPLES
                                          then tv2 else temp data1 x)\<rparr>))
       \<and> (f2 = f1 \<longrightarrow>
            geneactiv_read_block h gdi buffB timeB pB fpB w1 info1 data1 = Inl OutOfBounds \<or>
            (\<exists>rc2 fp2 w2 info2 data2.
               geneactiv_read_block h gdi buffB timeB pB fpB w1 info1 data1 = Inr (rc2, fp2, w2, info2, data2) \<and>
               rc2 \<noteq> GN_READ_E_BLOCK_FS \<and> rc2 \<noteq> GN_READ_E_BLOCK_FS_WARN \<and>
               fs info2 = f1 \<and> fs_err info2 = 1))"
proof -
  note rg = geneactiv_read_block_range[OF head1 ret1]
  note eq1 = geneactiv_read_block_eq[OF head1 rg[THEN conjunct1] rg[THEN conjunct2], of h gdi timeA pA w info data]
  let ?i = "info\<lparr>max_n := max N1 (max_n info), fs_err := fs_err info + 1, fs := f1\<rparr>"
  from ret1 mism first have "read_block_data h gdi GN_READ_E_BLOCK_FS_WARN (N1 * GN_SAMPLES) (store timeA l1) pA fp4A w ?i
      (data\<lparr>temp := (\<lambda>x. if N1 * GN_SAMPLES \<le> x \<and> x < N1 * GN_SAMPLES + GN_SAMPLES then tv1 else temp data x)\<rparr>)
      = Inr (rc1, fp1, w1, info1, data1)"
    by (simp add: eq1)
  from read_block_data_Inr(1)[OF this] first have i1: "fs info1 = f1" "fs_err info1 = 1"
    by simp_all
  note eq2 = geneactiv_read_block_eq[OF head2 lo2 hi2, of h gdi timeB pB w1 info1 data1]
  have fatal: "geneactiv_read_block h gdi buffB timeB pB fpB w1 info1 data1 =
              Inr (GN_READ_E_BLOCK_FS, fp4B, w1, info1\<lparr>max_n := max N2 (max_n info1)\<rparr>,
                   data1\<lparr>temp := (\<lambda>x. if N2 * GN_SAMPLES \<le> x \<and> x < N2 * GN_SAMPLES + GN_SAMPLES
                                          then tv2 else temp data1 x)\<rparr>)"
    if "f2 \<noteq> f1"
    using that i1 by (simp add: eq2)
  have same: "geneactiv_read_block h gdi buffB timeB pB fpB w1 info1 data1 = Inl OutOfBounds \<or>
            (\<exists>rc2 fp2 w2 info2 data2.
               geneactiv_read_block h gdi buffB timeB pB fpB w1 info1 data1 = Inr (rc2, fp2, w2, info2, data2) \<and>
               rc2 \<noteq> GN_READ_E_BLOCK_FS \<and> rc2 \<noteq> GN_READ_E_BLOCK_FS_WARN \<and>
               fs info2 = f1 \<and> fs_err info2 = 1)"
    if s: "f2 = f1"
  proof -
    let ?i2 = "info1\<lparr>max_n := max N2 (max_n info1)\<rparr>"
    let ?d2 = "data1\<lparr>temp := (\<lambda>x. if N2 * GN_SAMPLES \<le> x \<and> x < N2 * GN_SAMPLES + GN_SAMPLES
                                          then tv2 else temp data1 x)\<rparr>"
    from s i1 have c: "geneactiv_read_block h gdi buffB timeB pB fpB w1 info1 data1 =
        read_block_data h gdi GN_READ_E_NONE (N2 * GN_SAMPLES) (store timeB l2) pB fp4B w1 ?i2 ?d2"
      by (simp add: eq2)
    have i2: "fs ?i2 = f1" "fs_err ?i2 = 1" using i1 by simp_all
    from read_block_data_cases[of h gdi GN_READ_E_NONE "N2 * GN_SAMPLES" "store timeB l2" pB fp4B w1 ?i2 ?d2]
    show ?thesis
    proof
      assume "read_block_data h gdi GN_READ_E_NONE (N2 * GN_SAMPLES) (store timeB l2) pB fp4B w1 ?i2 ?d2
          = Inl OutOfBounds"
      then show ?thesis unfolding c by (rule disjI1)
    next
      assume "\<exists>rc fp' w' data'.
          read_block_data h gdi GN_READ_E_NONE (N2 * GN_SAMPLES) (store timeB l2) pB fp4B w1 ?i2 ?d2
            = Inr (rc, fp', w', ?i2, data') \<and>
          (rc = GN_READ_E_NONE \<or> rc = GN_READ_E_BLOCK_DATA \<or> rc = GN_READ_E_BLOCK_DATA_3600)"
      then obtain rc2 fp2 w2 data2 where
        rd: "read_block_data h gdi GN_READ_E_NONE (N2 * GN_SAMPLES) (store timeB l2) pB fp4B w1 ?i2 ?d2
            = Inr (rc2, fp2, w2, ?i2, data2)"
        and rc: "rc2 = GN_READ_E_NONE \<or> rc2 = GN_READ_E_BLOCK_DATA \<or> rc2 = GN_READ_E_BLOCK_DATA_3600"
        by blast
      from rc have "rc2 \<noteq> GN_READ_E_BLOCK_FS \<and> rc2 \<noteq> GN_READ_E_BLOCK_FS_WARN" by auto
      with rd i2 have "\<exists>rc2 fp2 w2 info2 data2.
               geneactiv_read_block h gdi buffB timeB pB fpB w1 info1 data1 = Inr (rc2, fp2, w2, info2, data2) \<and>
               rc2 \<noteq> GN_READ_E_BLOCK_FS \<and> rc2 \<noteq> GN_READ_E_BLOCK_FS_WARN \<and>
               fs info2 = f1 \<and> fs_err info2 = 1"
        unfolding c by blast
      then show ?thesis by (rule disjI2)
    qed
  qed
  from mism have "f2 = fs info \<Longrightarrow> f2 \<noteq> f1" by auto
  with i1 fatal same show ?thesis by blast
qed

text \<open>Blocks of the examples under a header of 100 Hz: the first declares 50 Hz; a second
  that declares 100 Hz is refused, one that declares 50 Hz is not.\<close>

theorem C9_corrected_rate_is_compared_witness:
  "\<exists>rc1 fp1 w1 info1 data1.
     geneactiv_read_block ex_h ex_indexing [] [] NUL
        (ex_block ''50.0'' (ex_line @ NL # ex_block ''100.0'' (ex_line @ [NL]))) ex_w ex_info ex_data
       = Inr (rc1, fp1, w1, info1, data1) \<and>
     rc1 = GN_READ_E_BLOCK_FS_WARN \<and> fp1 = ex_block ''100.0'' (ex_line @ [NL]) \<and>
     fs ex_info = 100 \<and> fs_err ex_info = 0 \<and> fs info1 = 50 \<and> fs_err info1 = 1 \<and>
     (\<exists>info2 data2.
        geneactiv_read_block ex_h ex_indexing [] [] NUL fp1 w1 info1 data1
          = Inr (GN_READ_E_BLOCK_FS, ex_line @ [NL], w1, info2, data2)) \<and>
     (\<exists>rc3 fp3 w3 info3 data3.
        geneactiv_read_block ex_h ex_indexing [] [] NUL (ex_block ''50.0'' (ex_line @ [NL])) w1 info1 data1
          = Inr (rc3, fp3, w3, info3, data3) \<and>
        rc3 \<noteq> GN_READ_E_BLOCK_FS \<and> rc3 \<noteq> GN_READ_E_BLOCK_FS_WARN \<and> fs info3 = 50 \<and> fs_err info3 = 1)"
proof -
  let ?fpB = "ex_block ''100.0'' (ex_line @ [NL])"
  let ?fpA = "ex_block ''50.0'' (ex_line @ NL # ?fpB)"
  have head1: "block_head [] ?fpA = Some (2, ex_stamp, 43 / 2, 50, ex_line @ NL # ?fpB)"
    by (rule ex_block_head_50)
  have line1: "fgets 3610 (ex_line @ NL # ?fpB) = Some (ex_line @ [NL], ?fpB)"
    by (rule ex_line_fgets)
  have len1: "3601 \<le> strlen (store [] (ex_line @ [NL]))" by (simp add: ex_line_strlen)
  have i0: "fs ex_info = 100" "fs_err ex_info = 0" by (simp_all add: ex_info_def)
  have m: "(50::real) \<noteq> fs ex_info" by (simp add: i0)
  have "(50::real) = fs ex_info \<or> fs_err ex_info < 1" by (simp add: i0)
  from block_decodes[OF head1 line1 len1 reads_in_p_NUL ex_range this, of ex_h ex_indexing "[]" ex_w ex_data] m
  obtain w1 info1 data1 where
    ret1: "geneactiv_read_block ex_h ex_indexing [] [] NUL ?fpA ex_w ex_info ex_data
       = Inr (GN_READ_E_BLOCK_FS_WARN, ?fpB, w1, info1, data1)"
    by auto
  have head2: "block_head [] ?fpB = Some (2, ex_stamp, 43 / 2, 100, ex_line @ [NL])"
    by (rule ex_block_head_100)
  note t = C9_corrected_rate_is_compared[OF head1 m i0(2) ret1 head2 ex_range, of "[]" NUL]
  from t have a: "fs info1 = 50" and b: "fs_err info1 = 1" by blast+
  from t i0(1) have c0: "geneactiv_read_block ex_h ex_indexing [] [] NUL ?fpB w1 info1 data1 =
              Inr (GN_READ_E_BLOCK_FS, ex_line @ [NL], w1, info1\<lparr>max_n := max 2 (max_n info1)\<rparr>,
                   data1\<lparr>temp := (\<lambda>x. if 2 * GN_SAMPLES \<le> x \<and> x < 2 * GN_SAMPLES + GN_SAMPLES
                                          then 43 / 2 else temp data1 x)\<rparr>)"
    by simp
  then have c: "\<exists>info2 data2.
        geneactiv_read_block ex_h ex_indexing [] [] NUL ?fpB w1 info1 data1
          = Inr (GN_READ_E_BLOCK_FS, ex_line @ [NL], w1, info2, data2)"
    by blast
  have head3: "block_head [] (ex_block ''50.0'' (ex_line @ [NL])) = Some (2, ex_stamp, 43 / 2, 50, ex_line @ [NL])"
    by (rule ex_block_head_50)
  have line3: "fgets 3610 (ex_line @ [NL]) = Some (ex_line @ [NL], [])"
    using ex_line_fgets[of "[]"] by simp
  from a have "(50::real) = fs info1 \<or> fs_err info1 < 1" by simp
  from block_decodes[OF head3 line3 len1 reads_in_p_NUL ex_range this, of ex_h ex_indexing "[]" w1 data1]
  have nov: "geneactiv_read_block ex_h ex_indexing [] [] NUL (ex_block ''50.0'' (ex_line @ [NL])) w1 info1 data1
      \<noteq> Inl OutOfBounds"
    by auto
  from C9_corrected_rate_is_compared[OF head1 m i0(2) ret1 head3 ex_range, of "[]" NUL] nov
  have d: "\<exists>rc3 fp3 w3 info3 data3.
        geneactiv_read_block ex_h ex_indexing [] [] NUL (ex_block ''50.0'' (ex_line @ [NL])) w1 info1 data1
          = Inr (rc3, fp3, w3, info3, data3) \<and>
        rc3 \<noteq> GN_READ_E_BLOCK_FS \<and> rc3 \<noteq> GN_READ_E_BLOCK_FS_WARN \<and> fs info3 = 50 \<and> fs_err info3 = 1"
    by blast
  have "\<exists>info2 data2.
        geneactiv_read_block ex_h ex_indexing [] [] NUL ?fpB w1 info1 data1
          = Inr (GN_READ_E_BLOCK_FS, ex_line @ [NL], w1, info2, data2)"
    using c0 by blast
  from this d have cd: "(\<exists>info2 data2.
        geneactiv_read_block ex_h ex_indexing [] [] NUL ?fpB w1 info1 data1
          = Inr (GN_READ_E_BLOCK_FS, ex_line @ [NL], w1, info2, data2)) \<and>
     (\<exists>rc3 fp3 w3 info3 data3.
        geneactiv_read_block ex_h ex_indexing [] [] NUL (ex_block ''50.0'' (ex_line @ [NL])) w1 info1 data1
          = Inr (rc3, fp3, w3, info3, data3) \<and>
        rc3 \<noteq> GN_READ_E_BLOCK_FS \<and> rc3 \<noteq> GN_READ_E_BLOCK_FS_WARN \<and> fs info3 = 50 \<and> fs_err info3 = 1)"
    by (rule conjI)
  have "geneactiv_read_block ex_h ex_indexing [] [] NUL ?fpA ex_w ex_info ex_data
       = Inr (GN_READ_E_BLOCK_FS_WARN, ?fpB, w1, info1, data1) \<and>
     GN_READ_E_BLOCK_FS_WARN = GN_READ_E_BLOCK_FS_WARN \<and> ?fpB = ?fpB \<and>
     fs ex_info = 100 \<and> fs_err ex_info = 0 \<and> fs info1 = 50 \<and> fs_err info1 = 1 \<and>
     (\<exists>info2 data2.
        geneactiv_read_block ex_h ex_indexing [] [] NUL ?fpB w1 info1 data1
          = Inr (GN_READ_E_BLOCK_FS, ex_line @ [NL], w1, info2, data2)) \<and>
     (\<exists>rc3 fp3 w3 info3 data3.
        geneactiv_read_block ex_h ex_indexing [] [] NUL (ex_block ''50.0'' (ex_line @ [NL])) w1 info1 data1
          = Inr (rc3, fp3, w3, info3, data3) \<and>
        rc3 \<noteq> GN_READ_E_BLOCK_FS \<and> rc3 \<noteq> GN_READ_E_BLOCK_FS_WARN \<and> fs info3 = 50 \<and> fs_err info3 = 1)"
    using ret1 i0 a b cd[THEN conjunct1] cd[THEN conjunct2] by (intro conjI) (rule refl | assumption)+
  then show ?thesis
    by (intro exI)
qed

text \<open>C4, as the code has it: when the lines in front of the data line are present, the declared
  rate is accepted and the stream ends at the data line or the line has fewer than 3600
  characters, the call returns \<^verbatim>\<open>GN_READ_E_BLOCK_DATA\<close> or \<^verbatim>\<open>GN_READ_E_BLOCK_DATA_3600\<close>; the
  time stamps, accelerations, light values and window arrays are what they were, and the
  temperature array differs only in the slots of this block, which hold the block's
  temperature: lines 117-118 fill them before line 136 reads the data line.\<close>

theorem C4_truncated_block:
  assumes head: "block_head buff0 fp = Some (N, l, tv, f, fp4)"
    and lo: "INT_MIN \<le> N * GN_SAMPLES" and hi: "N * GN_SAMPLES + GN_SAMPLES \<le> INT_MAX"
    and rate: "f = fs info \<or> fs_err info < 1"
    and trunc: "fp4 = [] \<or> length (takeWhile (\<lambda>c. c \<noteq> NL) fp4) < 3600"
  shows "\<exists>rc fp' info'.
           geneactiv_read_block h gdi buff0 time0 p3 fp w info data =
             Inr (rc, fp', w, info',
                  data\<lparr>temp := (\<lambda>x. if N * GN_SAMPLES \<le> x \<and> x < N * GN_SAMPLES + GN_SAMPLES
                                       then tv else temp data x)\<rparr>)
           \<and> (rc = GN_READ_E_BLOCK_DATA \<or> rc = GN_READ_E_BLOCK_DATA_3600)"
proof -
  note eq = geneactiv_read_block_eq[OF head lo hi, of h gdi time0 p3 w info data]
  from rate have nf: "\<not> (f \<noteq> fs info \<and> 1 \<le> fs_err info)" by auto
  let ?info = "if f \<noteq> fs info then info\<lparr>max_n := max N (max_n info), fs_err := fs_err info + 1, fs := f\<rparr>
           else info\<lparr>max_n := max N (max_n info)\<rparr>"
  let ?data = "data\<lparr>temp := (\<lambda>x. if N * GN_SAMPLES \<le> x \<and> x < N * GN_SAMPLES + GN_SAMPLES
                                       then tv else temp data x)\<rparr>"
  from read_block_data_truncated[OF trunc, of h gdi
      "if f \<noteq> fs info then GN_READ_E_BLOCK_FS_WARN else GN_READ_E_NONE" "N * GN_SAMPLES" "store time0 l" p3 w ?info ?data]
  obtain rc fp' where
    rd: "read_block_data h gdi (if f \<noteq> fs info then GN_READ_E_BLOCK_FS_WARN else GN_READ_E_NONE)
        (N * GN_SAMPLES) (store time0 l) p3 fp4 w ?info ?data = Inr (rc, fp', w, ?info, ?data)"
    and rc: "rc = GN_READ_E_BLOCK_DATA \<or> rc = GN_READ_E_BLOCK_DATA_3600"
    by blast
  have "geneactiv_read_block h gdi buff0 time0 p3 fp w info data =
      read_block_data h gdi (if f \<noteq> fs info then GN_READ_E_BLOCK_FS_WARN else GN_READ_E_NONE)
        (N * GN_SAMPLES) (store time0 l) p3 fp4 w ?info ?data"
    unfolding eq using nf by (rule if_not_P)
  also note rd
  finally have "geneactiv_read_block h gdi buff0 time0 p3 fp w info data = Inr (rc, fp', w, ?info, ?data)" .
  with rc show ?thesis by blast
qed

text \<open>The block of the examples with a data line of twelve characters.\<close>

theorem C4_truncated_block_witness:
  "\<exists>rc fp' info'.
     geneactiv_read_block ex_h ex_indexing [] [] NUL (ex_block ''100.0'' (''8007ff00103f'' @ [NL])) ex_w ex_info ex_data
       = Inr (rc, fp', ex_w, info',
              ex_data\<lparr>temp := (\<lambda>x. if 2 * GN_SAMPLES \<le> x \<and> x < 2 * GN_SAMPLES + GN_SAMPLES
                                    then 43 / 2 else temp ex_data x)\<rparr>)
     \<and> (rc = GN_READ_E_BLOCK_DATA \<or> rc = GN_READ_E_BLOCK_DATA_3600)"
proof -
  have head: "block_head [] (ex_block ''100.0'' (''8007ff00103f'' @ [NL])) =
      Some (2, ex_stamp, 43 / 2, 100, ''8007ff00103f'' @ [NL])"
    by (rule ex_block_head_100)
  have rate: "(100::real) = fs ex_info \<or> fs_err ex_info < 1" by (simp add: ex_info_def)
  have trunc: "''8007ff00103f'' @ [NL] = [] \<or> length (takeWhile (\<lambda>c. c \<noteq> NL) (''8007ff00103f'' @ [NL])) < 3600"
    using ex_short_line by blast
  show ?thesis
    by (rule C4_truncated_block[OF head ex_range rate trunc])
qed

text \<open>C4 as stated fails on the temperature: after the same call, which returns
  \<^verbatim>\<open>GN_READ_E_BLOCK_DATA_3600\<close>, slot 600 of the temperature array holds 21.5 where it held 0.\<close>

theorem C4_counterexample:
  "geneactiv_read_block ex_h ex_indexing [] [] NUL (ex_block ''100.0'' (''8007ff00103f'' @ [NL])) ex_w ex_info ex_data
     = Inr (GN_READ_E_BLOCK_DATA_3600, [], ex_w, ex_info\<lparr>max_n := 2\<rparr>,
            ex_data\<lparr>temp := (\<lambda>x. if 600 \<le> x \<and> x < 900 then 43 / 2 else 0)\<rparr>)
   \<and> temp (ex_data\<lparr>temp := (\<lambda>x. if 600 \<le> x \<and> x < 900 then 43 / 2 else 0)\<rparr>) 600 \<noteq> temp ex_data 600"
proof -
  have head: "block_head [] (ex_block ''100.0'' (''8007ff00103f'' @ [NL])) =
      Some (2, ex_stamp, 43 / 2, 100, ''8007ff00103f'' @ [NL])"
    by (rule ex_block_head_100)
  note eq = geneactiv_read_block_eq[OF head ex_range, of ex_h ex_indexing "[]" NUL ex_w ex_info ex_data]
  have c: "\<not> ((100::real) \<noteq> fs ex_info \<and> 1 \<le> fs_err ex_info)" by (simp add: ex_info_def)
  have "geneactiv_read_block ex_h ex_indexing [] [] NUL (ex_block ''100.0'' (''8007ff00103f'' @ [NL])) ex_w ex_info ex_data
      = read_block_data ex_h ex_indexing (if (100::real) \<noteq> fs ex_info then GN_READ_E_BLOCK_FS_WARN else GN_READ_E_NONE)
          (2 * GN_SAMPLES) (store [] ex_stamp) NUL (''8007ff00103f'' @ [NL]) ex_w
          (if (100::real) \<noteq> fs ex_info then ex_info\<lparr>max_n := max 2 (max_n ex_info), fs_err := fs_err ex_info + 1, fs := 100\<rparr>
           else ex_info\<lparr>max_n := max 2 (max_n ex_info)\<rparr>)
          (ex_data\<lparr>temp := (\<lambda>x. if 2 * GN_SAMPLES \<le> x \<and> x < 2 * GN_SAMPLES + GN_SAMPLES then 43 / 2 else temp ex_data x)\<rparr>)"
    unfolding eq using c by (rule if_not_P)
  also have "\<dots> = Inr (GN_READ_E_BLOCK_DATA_3600, [], ex_w, ex_info\<lparr>max_n := 2\<rparr>,
            ex_data\<lparr>temp := (\<lambda>x. if 600 \<le> x \<and> x < 900 then 43 / 2 else 0)\<rparr>)"
    by (simp add: read_block_data_def fgets_def strlen_def store_def cstr_def NUL_def NL_def Let_def
        ex_info_def ex_data_def GN_SAMPLES_def cong: if_cong)
  finally have "geneactiv_read_block ex_h ex_indexing [] [] NUL (ex_block ''100.0'' (''8007ff00103f'' @ [NL])) ex_w ex_info ex_data
     = Inr (GN_READ_E_BLOCK_DATA_3600, [], ex_w, ex_info\<lparr>max_n := 2\<rparr>,
            ex_data\<lparr>temp := (\<lambda>x. if 600 \<le> x \<and> x < 900 then 43 / 2 else 0)\<rparr>)" .
  moreover have "temp (ex_data\<lparr>temp := (\<lambda>x. if 600 \<le> x \<and> x < 900 then 43 / 2 else 0)\<rparr>) 600 \<noteq> temp ex_data 600"
    by (simp add: ex_data_def)
  ultimately show ?thesis by (rule conjI)
qed

text \<open>C3, as the code has it: \<^verbatim>\<open>geneactiv_read_header\<close> has no failure return; a call that
  returns returns \<^verbatim>\<open>GN_READ_E_NONE\<close>, on every stream and every content of its local array.
  And it does return on every stream whose first 53 lines are present with a colon behind
  a key on lines 20 and 48 to 53: whatever the text of the values, numbers or not, and
  whatever follows line 53, all of the lines 54 to 59 or fewer.\<close>

theorem C3_header_returns_success:
  "(\<forall>rc fp' info'. geneactiv_read_header buff0 fp info = Inr (rc, fp', info') \<longrightarrow> rc = GN_READ_E_NONE)
   \<and> (length a = 19 \<and> length b = 27 \<and> length c = 6 \<and>
       (\<forall>l\<in>set (a @ l20 # b @ c). header_line l) \<and> (\<forall>l\<in>set (l20 # c). has_value l) \<longrightarrow>
         (\<exists>fp' info'. geneactiv_read_header buff0 (text_lines (a @ l20 # b @ c) @ rest) info =
             Inr (GN_READ_E_NONE, fp', info')))"
proof -
  have x: "rc = GN_READ_E_NONE" if "geneactiv_read_header buff0 fp info = Inr (rc, fp', info')" for rc fp' info'
    using that
    by (auto simp: geneactiv_read_header_def Let_def split: prod.splits option.splits sum.splits)
  have y: "\<exists>fp' info'. geneactiv_read_header buff0 (text_lines (a @ l20 # b @ c) @ rest) info =
             Inr (GN_READ_E_NONE, fp', info')"
    if "length a = 19 \<and> length b = 27 \<and> length c = 6 \<and>
       (\<forall>l\<in>set (a @ l20 # b @ c). header_line l) \<and> (\<forall>l\<in>set (l20 # c). has_value l)"
  proof -
    from that have 1: "length a = 19" and 2: "length b = 27" and 3: "length c = 6"
      and 4: "\<forall>l\<in>set (a @ l20 # b @ c). header_line l" and 5: "\<forall>l\<in>set (l20 # c). has_value l"
      by blast+
    show ?thesis by (rule header_decodes[OF 1 2 3 4 5])
  qed
  from x y show ?thesis by blast
qed

text \<open>A header that ends behind its line 54, with a sampling frequency and volts that are
  no numbers.\<close>

theorem C3_header_returns_success_witness:
  "length (replicate 19 ''Device'') = 19 \<and> length (replicate 27 ''Subject'') = 27 \<and>
   length [''x gain:25548'', ''x offset:-1430'', ''y gain:25690'', ''y offset:-1520'',
           ''z gain:25280'', ''z offset:40''] = 6 \<and>
   list_all header_line
     (replicate 19 ''Device'' @ ''Measurement Frequency:fast'' # replicate 27 ''Subject'' @
      [''x gain:25548'', ''x offset:-1430'', ''y gain:25690'', ''y offset:-1520'',
       ''z gain:25280'', ''z offset:40'']) \<and>
   list_all has_value
     (''Measurement Frequency:fast'' #
      [''x gain:25548'', ''x offset:-1430'', ''y gain:25690'', ''y offset:-1520'',
       ''z gain:25280'', ''z offset:40'']) \<and>
   (\<exists>rc fp' info'.
      geneactiv_read_header []
        (text_lines (replicate 19 ''Device'' @ ''Measurement Frequency:fast'' # replicate 27 ''Subject'' @
                     [''x gain:25548'', ''x offset:-1430'', ''y gain:25690'', ''y offset:-1520'',
                      ''z gain:25280'', ''z offset:40'']) @ text_lines [''Volts:abc'']) ex_info
        = Inr (rc, fp', info') \<and> rc = GN_READ_E_NONE)"
proof -
  let ?a = "replicate 19 ''Device''" and ?b = "replicate 27 ''Subject''"
  let ?c = "[''x gain:25548'', ''x offset:-1430'', ''y gain:25690'', ''y offset:-1520'',
             ''z gain:25280'', ''z offset:40'']"
  let ?l = "''Measurement Frequency:fast''"
  let ?fp = "text_lines (?a @ ?l # ?b @ ?c) @ text_lines [''Volts:abc'']"
  have 1: "length ?a = 19" and 2: "length ?b = 27" and 3: "length ?c = 6" by simp_all
  have 4: "\<forall>l\<in>set (?a @ ?l # ?b @ ?c). header_line l"
    by (simp add: header_line_def NL_def NUL_def)
  have 5: "\<forall>l\<in>set (?l # ?c). has_value l"
    by (simp add: has_value_def)
  note t = C3_header_returns_success[of "[]" ?fp ex_info ?a ?b ?c ?l "text_lines [''Volts:abc'']"]
  from t 1 2 3 4 5 obtain fp' info' where
    r: "geneactiv_read_header [] ?fp ex_info = Inr (GN_READ_E_NONE, fp', info')"
    by blast
  from t r have rc: "GN_READ_E_NONE = GN_READ_E_NONE" by blast
  from 4 have 6: "list_all header_line (?a @ ?l # ?b @ ?c)" by (simp only: list_all_iff)
  from 5 have 7: "list_all has_value (?l # ?c)" by (simp only: list_all_iff)
  show ?thesis
    apply (intro exI conjI)
          apply (rule 1)
         apply (rule 2)
        apply (rule 3)
       apply (rule 6)
      apply (rule 7)
     apply (rule r)
    apply (rule rc)
    done
qed

text \<open>C3 as stated fails: a header of 59 lines whose volts field is \<^verbatim>\<open>abc\<close> is decoded with
  success and volts 0, and a header cut off after its line 58 is decoded with success.\<close>

theorem C3_counterexample:
  "geneactiv_read_header [] (text_lines (ex_header_lines ''Volts:abc'')) ex_info =
     Inr (GN_READ_E_NONE, [],
          ex_info\<lparr>fs := 100, gain := (gain ex_info)(0 := 25548, 1 := 25690, 2 := 25280),
                   offset := (offset ex_info)(0 := - 1430, 1 := - 1520, 2 := 40),
                   volts := 0, lux := 1000, npages := 12345\<rparr>)
   \<and> length (butlast (ex_header_lines ''Volts:300'')) = 58
   \<and> geneactiv_read_header [] (text_lines (butlast (ex_header_lines ''Volts:300''))) ex_info =
     Inr (GN_READ_E_NONE, [],
          ex_info\<lparr>fs := 100, gain := (gain ex_info)(0 := 25548, 1 := 25690, 2 := 25280),
                   offset := (offset ex_info)(0 := - 1430, 1 := - 1520, 2 := 40),
                   volts := 300, lux := 1000, npages := 12345\<rparr>)"
  using ex_header_bad_volts ex_header_58_length ex_header_58_lines by (intro conjI)

text \<open>C8 fails on the empty sequence: for a one-dimensional array of no elements the last
  dimension is 0 and line 55 divides by it. For an array whose last dimension is not 0 the
  lemma \<open>roll_median_nonempty\<close> gives the result: the shape of the input, and slice by
  slice the medians of \<open>gsl_movstat_median_padzero\<close>.\<close>

theorem C8_empty_sequence:
  "roll_median [] \<lparr>dims = [0], elems = []\<rparr> 3 = Inl DivisionByZero"
  by (simp add: roll_median_def)


end
